theory Spec2Isabelle
  imports Complex_Main
begin

unbundle bit_operations_syntax

section \<open>Python values\<close>

text \<open>
  The exceptions the modelled code can raise. Every \<open>raise\<close> of the source is a value
  \<open>Inl e\<close> of a result type \<open>exn + 'a\<close>.
\<close>

datatype exn = KeyError | TypeError | ValueError | IndexError

text \<open>
  A key of a Python dict read from JSON: the key is absent, it is present with the value
  \<open>None\<close>, or it is present with a value. Python values that may be \<open>None\<close> are
  options, \<open>None\<close> being Python's \<open>None\<close>.
\<close>

datatype 'a field = Absent | Null | Val 'a

text \<open>\<open>d.get(key)\<close>\<close>

fun get :: "'a field \<Rightarrow> 'a option" where
  "get Absent = None"
| "get Null = None"
| "get (Val v) = Some v"

text \<open>\<open>d.get(key, default)\<close>\<close>

fun get_or :: "'a field \<Rightarrow> 'a \<Rightarrow> 'a option" where
  "get_or Absent d = Some d"
| "get_or Null d = None"
| "get_or (Val v) d = Some v"

text \<open>\<open>d[key]\<close>\<close>

fun item :: "'a field \<Rightarrow> exn + 'a option" where
  "item Absent = Inl KeyError"
| "item Null = Inr None"
| "item (Val v) = Inr (Some v)"

text \<open>Truth value of an optional string and of an optional integer in a condition.\<close>

fun truthy_str :: "string option \<Rightarrow> bool" where
  "truthy_str None = False"
| "truthy_str (Some s) = (s \<noteq> [])"

fun truthy_int :: "int option \<Rightarrow> bool" where
  "truthy_int None = False"
| "truthy_int (Some n) = (n \<noteq> 0)"

text \<open>
  A dict with insertion order: an association list whose keys are distinct.
  \<open>d[k] = v\<close> replaces the value of a key that is present, in place, and appends a new key.
\<close>

fun dict_set :: "('k \<times> 'v) list \<Rightarrow> 'k \<Rightarrow> 'v \<Rightarrow> ('k \<times> 'v) list" where
  "dict_set [] k v = [(k, v)]"
| "dict_set ((k', v') # d) k v = (if k' = k then (k, v) # d else (k', v') # dict_set d k v)"

section \<open>Binary64 arithmetic\<close>

text \<open>
  Python's \<open>int / int\<close> and \<open>float * int\<close> return the binary64 number nearest to the
  exact result, ties to even. A finite binary64 number is a rational; \<open>fl64\<close> rounds a
  rational to the nearest one, subnormal numbers included (the unit in the last place
  never goes below \<open>2 powi - 1074\<close>). Overflow to infinity is left out: the validator's
  score never exceeds 100.
\<close>

function bit_length :: "int \<Rightarrow> nat" where
  "bit_length n = (if n \<le> 0 then 0 else Suc (bit_length (n div 2)))"
  by pat_completeness auto
termination
  by (relation "measure nat") auto

declare bit_length.simps [simp del]

definition round_half_even :: "rat \<Rightarrow> int" where
  "round_half_even x =
     (let f = \<lfloor>x\<rfloor>; d = x - of_int f
      in if d < 1 / 2 then f else if 1 / 2 < d then f + 1 else if even f then f else f + 1)"

definition float_exponent :: "rat \<Rightarrow> int" where
  "float_exponent x =
     (let (a, b) = quotient_of x;
          k = int (bit_length a) - int (bit_length b);
          lg = (if 2 powi k \<le> x then k else k - 1)
      in max (lg - 52) (- 1074))"

definition fl64_pos :: "rat \<Rightarrow> rat" where
  "fl64_pos x = (if x = 0 then 0 else
     (let e = float_exponent x in of_int (round_half_even (x / 2 powi e)) * 2 powi e))"

definition fl64 :: "rat \<Rightarrow> rat" where
  "fl64 x = (if x < 0 then - fl64_pos (- x) else fl64_pos x)"

text \<open>\<open>a / b\<close> on integers, \<open>b\<close> not zero, and \<open>x * n\<close> on a float and an integer.\<close>

definition py_truediv :: "int \<Rightarrow> int \<Rightarrow> rat" where
  "py_truediv a b = fl64 (of_int a / of_int b)"

definition py_float_mul :: "rat \<Rightarrow> int \<Rightarrow> rat" where
  "py_float_mul x n = fl64 (x * of_int n)"

section \<open>Data model\<close>

text \<open>
  Device records as \<open>config_parser.py\<close> writes them and as \<open>network_topology.py\<close> and
  \<open>validator.py\<close> read them. The fields the code reads with \<open>.get\<close> or by subscript may
  be absent or \<open>None\<close>; the device name is the key the record is stored under.
\<close>

record interface =
  name :: "string field"
  ip_address :: "string field"
  subnet_mask :: "string field"
  vlan :: "int field"
  mtu :: "int field"
  bandwidth :: "int field"

record vlan_entry =
  vlan_id :: "int field"
  vlan_name :: "string field"

record device =
  device_name :: string
  device_type :: "string field"
  interfaces :: "interface list field"
  vlans :: "vlan_entry list field"

text \<open>
  An end of a link. Subnet links store the subnet member (\<open>device_id\<close>, \<open>interface\<close>,
  \<open>ip_address\<close>, \<open>bandwidth\<close>); switch links store \<open>device_id\<close> and the interface
  \<open>mgmt\<close> only.
\<close>

record endpoint =
  device_id :: string
  interface :: "string option"
  ep_ip_address :: "string field"
  ep_bandwidth :: "int field"

record link =
  device1 :: endpoint
  device2 :: endpoint
  subnet :: "string field"
  bandwidth_mbps :: int
  current_utilization :: int

record topology_data =
  devices :: "(string \<times> device) list"
  links :: "(string \<times> link) list"

section \<open>Validation report\<close>

text \<open>The \<open>vlan\<close> of an IP-conflict entry: \<open>'default'\<close>, \<open>None\<close> or the VLAN id.\<close>

datatype vlan_ref = VlanDefault | VlanNone | VlanId int

text \<open>
  The issue dicts of the modelled rules, one constructor for each shape, the fields in the
  order of the comment.
\<close>

datatype issue =
    IpConflictIssue string vlan_ref "(string \<times> string option \<times> vlan_ref) list" string
      \<comment> \<open>\<open>ip_address\<close>, \<open>vlan\<close>, \<open>conflicting_devices\<close>, \<open>severity\<close>\<close>
  | LoopIssue "string list" nat string string
      \<comment> \<open>\<open>devices_in_loop\<close>, \<open>loop_length\<close>, \<open>severity\<close>, \<open>recommendation\<close>\<close>
  | StpIssue string string string
      \<comment> \<open>\<open>device\<close>, \<open>issue\<close>, \<open>severity\<close>\<close>
  | EndpointIssue string string string string
      \<comment> \<open>\<open>endpoint\<close>, \<open>issue\<close>, \<open>severity\<close>, \<open>suggestion\<close>\<close>
  | DhcpIssue string string string string
      \<comment> \<open>\<open>subnet\<close>, \<open>issue\<close>, \<open>severity\<close>, \<open>suggestion\<close>\<close>
  | SpofDeviceIssue string "string option" string string string
      \<comment> \<open>\<open>device\<close>, \<open>device_type\<close>, \<open>issue\<close>, \<open>recommendation\<close>, \<open>severity\<close>\<close>
  | SpofLinkIssue string string string string
      \<comment> \<open>\<open>link\<close>, \<open>issue\<close>, \<open>recommendation\<close>, \<open>severity\<close>\<close>
  | CapacityIssue string rat string string
      \<comment> \<open>\<open>link_id\<close>, \<open>utilization\<close>, \<open>recommendation\<close>, \<open>severity\<close>; the text
          \<open>issue\<close>, which prints the utilization with one decimal, is left out\<close>

text \<open>\<open>issue['severity']\<close>\<close>

fun severity :: "issue \<Rightarrow> string" where
  "severity (IpConflictIssue _ _ _ s) = s"
| "severity (LoopIssue _ _ s _) = s"
| "severity (StpIssue _ _ s) = s"
| "severity (EndpointIssue _ _ s _) = s"
| "severity (DhcpIssue _ _ s _) = s"
| "severity (SpofDeviceIssue _ _ _ _ s) = s"
| "severity (SpofLinkIssue _ _ _ s) = s"
| "severity (CapacityIssue _ _ _ s) = s"

record rule_result =
  status :: string
  issues :: "issue list"
  suggestions :: "string list"

text \<open>
  An entry of \<open>detailed_results\<close>: the rule's result, or \<open>{'status': 'error', 'error': str(e)}\<close>.
\<close>

datatype detailed_result = RuleResult rule_result | RuleError exn

fun detailed_status :: "detailed_result \<Rightarrow> string" where
  "detailed_status (RuleResult r) = status r"
| "detailed_status (RuleError e) = ''error''"

record validation_results =
  overall_score :: rat
  total_checks :: nat
  passed_checks :: nat
  failed_checks :: nat
  warnings :: nat
  critical_issues :: "issue list"
  warnings_list :: "issue list"
  optimization_suggestions :: "string list"
  detailed_results :: "(string \<times> detailed_result) list"

section \<open>Validator engine\<close>

text \<open>
  A rule is a bound method of one argument (\<open>topology_data\<close>) or, as
  \<open>check_capacity_adequacy\<close>, of two (\<open>topology_data\<close>, \<open>traffic_analysis\<close>, neither with a
  default). Calling a method with the wrong number of arguments raises \<open>TypeError\<close>.
  The traffic analysis is a dict with string keys.
\<close>

datatype 'v rule_function =
    Rule1 "topology_data \<Rightarrow> exn + rule_result"
  | Rule2 "topology_data \<Rightarrow> (string \<times> 'v) list \<Rightarrow> exn + rule_result"

fun call1 :: "'v rule_function \<Rightarrow> topology_data \<Rightarrow> exn + rule_result" where
  "call1 (Rule1 f) t = f t"
| "call1 (Rule2 f) t = Inl TypeError"

fun call2 :: "'v rule_function \<Rightarrow> topology_data \<Rightarrow> (string \<times> 'v) list \<Rightarrow> exn + rule_result" where
  "call2 (Rule1 f) t a = Inl TypeError"
| "call2 (Rule2 f) t a = f t a"

text \<open>The call in the \<open>try\<close> block: \<open>traffic_analysis\<close> is \<open>None\<close> or a dict, true when not empty.\<close>

fun invoke_rule ::
  "string \<Rightarrow> 'v rule_function \<Rightarrow> topology_data \<Rightarrow> (string \<times> 'v) list option \<Rightarrow> exn + rule_result"
where
  "invoke_rule rule_name f t None = call1 f t"
| "invoke_rule rule_name f t (Some a) =
     (if rule_name = ''capacity_validation'' \<and> a \<noteq> [] then call2 f t a else call1 f t)"

text \<open>One pass of the loop over \<open>self.validation_rules.items()\<close>.\<close>

definition tally :: "rule_result \<Rightarrow> validation_results \<Rightarrow> validation_results" where
  "tally result vr =
     (if status result = ''pass'' then vr\<lparr>passed_checks := passed_checks vr + 1\<rparr>
      else if status result = ''fail'' then
        vr\<lparr>failed_checks := failed_checks vr + 1,
           critical_issues := critical_issues vr @ issues result\<rparr>
      else if status result = ''warning'' then
        vr\<lparr>warnings := warnings vr + 1,
           warnings_list := warnings_list vr @ issues result\<rparr>
      else vr)"

definition run_rule ::
  "topology_data \<Rightarrow> (string \<times> 'v) list option \<Rightarrow> validation_results \<Rightarrow>
   string \<times> 'v rule_function \<Rightarrow> validation_results"
where
  "run_rule t traffic vr rule =
     (case invoke_rule (fst rule) (snd rule) t traffic of
        Inr result \<Rightarrow>
          (let vr1 = vr\<lparr>detailed_results :=
                          dict_set (detailed_results vr) (fst rule) (RuleResult result)\<rparr>;
               vr2 = tally result vr1
           in vr2\<lparr>optimization_suggestions :=
                     optimization_suggestions vr2 @ suggestions result\<rparr>)
      | Inl e \<Rightarrow>
          vr\<lparr>detailed_results := dict_set (detailed_results vr) (fst rule) (RuleError e)\<rparr>)"

definition initial_results :: "nat \<Rightarrow> validation_results" where
  "initial_results n =
     \<lparr>overall_score = 0, total_checks = n, passed_checks = 0, failed_checks = 0,
      warnings = 0, critical_issues = [], warnings_list = [],
      optimization_suggestions = [], detailed_results = []\<rparr>"

text \<open>The score computed after the loop; it stays the initial 0 when nothing was counted.\<close>

definition calculate_overall_score :: "validation_results \<Rightarrow> validation_results" where
  "calculate_overall_score vr =
     (let total = passed_checks vr + failed_checks vr + warnings vr
      in if total > 0
         then vr\<lparr>overall_score :=
                   py_float_mul
                     (py_truediv (int (passed_checks vr * 100 + warnings vr * 50))
                                 (int (total * 100)))
                     100\<rparr>
         else vr)"

text \<open>
  \<open>validate_network_configuration\<close>, with the rule table \<open>self.validation_rules\<close> (a dict
  in insertion order) as its first argument.
\<close>

definition validate_network_configuration ::
  "(string \<times> 'v rule_function) list \<Rightarrow> topology_data \<Rightarrow> (string \<times> 'v) list option \<Rightarrow>
   validation_results"
where
  "validate_network_configuration validation_rules t traffic =
     calculate_overall_score
       (foldl (run_rule t traffic) (initial_results (length validation_rules)) validation_rules)"

section \<open>Strings and integers\<close>

text \<open>
  Strings are lists of bytes; the model agrees with Python on ASCII text.
  \<open>s.split('.')\<close>, \<open>'.'.join(xs)\<close>, \<open>int(s)\<close>, \<open>str(n)\<close> and \<open>s[-1]\<close>.
\<close>

fun split_on :: "char \<Rightarrow> string \<Rightarrow> string list" where
  "split_on c [] = [[]]"
| "split_on c (x # xs) =
     (if x = c then [] # split_on c xs
      else (case split_on c xs of [] \<Rightarrow> [[x]] | w # ws \<Rightarrow> (x # w) # ws))"

fun join :: "string \<Rightarrow> string list \<Rightarrow> string" where
  "join sep [] = []"
| "join sep [x] = x"
| "join sep (x # y # ys) = x @ sep @ join sep (y # ys)"

definition is_space :: "char \<Rightarrow> bool" where
  "is_space c = (of_char c \<in> {9, 10, 11, 12, 13, 28, 29, 30, 31, 32 :: nat})"

definition is_digit :: "char \<Rightarrow> bool" where
  "is_digit c = (48 \<le> (of_char c :: nat) \<and> (of_char c :: nat) \<le> 57)"

definition strip :: "string \<Rightarrow> string" where
  "strip s = rev (dropWhile is_space (rev (dropWhile is_space s)))"

text \<open>
  The digits of a decimal literal: digits with single underscores between them.
\<close>

fun no_double_underscore :: "string \<Rightarrow> bool" where
  "no_double_underscore (a # b # cs) =
     (\<not> (a = CHR ''_'' \<and> b = CHR ''_'') \<and> no_double_underscore (b # cs))"
| "no_double_underscore _ = True"

definition valid_digits :: "string \<Rightarrow> bool" where
  "valid_digits s =
     (s \<noteq> [] \<and> is_digit (hd s) \<and> is_digit (last s) \<and>
      list_all (\<lambda>c. is_digit c \<or> c = CHR ''_'') s \<and> no_double_underscore s)"

definition digits_value :: "string \<Rightarrow> nat" where
  "digits_value s = foldl (\<lambda>acc c. acc * 10 + (of_char c - 48)) 0 (filter is_digit s)"

definition py_int :: "string \<Rightarrow> exn + int" where
  "py_int s =
     (case strip s of
        [] \<Rightarrow> Inl ValueError
      | c # r \<Rightarrow>
          (if c = CHR ''-'' then
             (if valid_digits r then Inr (- int (digits_value r)) else Inl ValueError)
           else if c = CHR ''+'' then
             (if valid_digits r then Inr (int (digits_value r)) else Inl ValueError)
           else
             (if valid_digits (c # r) then Inr (int (digits_value (c # r))) else Inl ValueError)))"

fun digits_of :: "nat \<Rightarrow> string" where
  "digits_of n =
     (if n < 10 then [char_of (48 + n)] else digits_of (n div 10) @ [char_of (48 + n mod 10)])"

declare digits_of.simps [simp del]

definition py_str_int :: "int \<Rightarrow> string" where
  "py_str_int i = (if i < 0 then CHR ''-'' # digits_of (nat (- i)) else digits_of (nat i))"

definition last_char :: "string \<Rightarrow> exn + char" where
  "last_char s = (if s = [] then Inl IndexError else Inr (last s))"

text \<open>\<open>p in s\<close> on strings.\<close>

fun contains :: "string \<Rightarrow> string \<Rightarrow> bool" where
  "contains p [] = (p = [])"
| "contains p (x # xs) = (take (length p) (x # xs) = p \<or> contains p xs)"

text \<open>Loops and comprehensions whose body may raise: the first exception ends them.\<close>

fun map_exn :: "('a \<Rightarrow> exn + 'b) \<Rightarrow> 'a list \<Rightarrow> exn + 'b list" where
  "map_exn f [] = Inr []"
| "map_exn f (x # xs) =
     (case f x of
        Inl e \<Rightarrow> Inl e
      | Inr y \<Rightarrow> (case map_exn f xs of Inl e \<Rightarrow> Inl e | Inr ys \<Rightarrow> Inr (y # ys)))"

fun fold_exn :: "('s \<Rightarrow> 'a \<Rightarrow> exn + 's) \<Rightarrow> 'a list \<Rightarrow> 's \<Rightarrow> exn + 's" where
  "fold_exn f [] s = Inr s"
| "fold_exn f (x # xs) s = (case f s x of Inl e \<Rightarrow> Inl e | Inr s' \<Rightarrow> fold_exn f xs s')"

text \<open>\<open>device_config.get('interfaces', [])\<close>, iterated: \<open>None\<close> is not iterable.\<close>

definition interfaces_of :: "device \<Rightarrow> exn + interface list" where
  "interfaces_of d = (case get_or (interfaces d) [] of None \<Rightarrow> Inl TypeError | Some l \<Rightarrow> Inr l)"

section \<open>Topology builder\<close>

text \<open>
  \<open>NetworkTopology._calculate_subnet\<close>: no \<open>try\<close> here. The comprehension over
  \<open>range(4)\<close> raises \<open>IndexError\<close> on fewer than four parts and ignores further ones.
\<close>

definition calculate_subnet :: "string \<Rightarrow> string \<Rightarrow> exn + string" where
  "calculate_subnet ip msk =
     (case map_exn py_int (split_on CHR ''.'' ip) of
        Inl e \<Rightarrow> Inl e
      | Inr ip_parts \<Rightarrow>
          (case map_exn py_int (split_on CHR ''.'' msk) of
             Inl e \<Rightarrow> Inl e
           | Inr mask_parts \<Rightarrow>
               (if length ip_parts < 4 \<or> length mask_parts < 4 then Inl IndexError
                else Inr (join ''.''
                       (map (\<lambda>i. py_str_int ((ip_parts ! i) AND (mask_parts ! i))) [0..<4])))))"

text \<open>
  \<open>subnet_devices\<close>: \<open>if subnet not in d: d[subnet] = []\<close>, then
  \<open>d[subnet].append(member)\<close>. The same function serves \<open>defaultdict(list)\<close>.
\<close>

fun dict_append :: "('k \<times> 'v list) list \<Rightarrow> 'k \<Rightarrow> 'v \<Rightarrow> ('k \<times> 'v list) list" where
  "dict_append [] k v = [(k, [v])]"
| "dict_append ((k', vs) # d) k v =
     (if k' = k then (k', vs @ [v]) # d else (k', vs) # dict_append d k v)"

text \<open>The body of the loop over the interfaces of one device (lines 37 to 52).\<close>

definition group_interface ::
  "string \<Rightarrow> (string \<times> endpoint list) list \<Rightarrow> interface \<Rightarrow>
   exn + (string \<times> endpoint list) list"
where
  "group_interface dev_id subnet_devices i =
     (case (get (ip_address i), get (subnet_mask i)) of
        (Some ip, Some msk) \<Rightarrow>
          (if ip \<noteq> [] \<and> msk \<noteq> [] then
             (case calculate_subnet ip msk of
                Inl e \<Rightarrow> Inl e
              | Inr sn \<Rightarrow>
                  (case item (name i) of
                     Inl e \<Rightarrow> Inl e
                   | Inr nm \<Rightarrow>
                       Inr (dict_append subnet_devices sn
                              \<lparr>device_id = dev_id, interface = nm, ep_ip_address = Val ip,
                               ep_bandwidth =
                                 (case get_or (bandwidth i) 100 of
                                    None \<Rightarrow> Null | Some b \<Rightarrow> Val b)\<rparr>)))
           else Inr subnet_devices)
      | _ \<Rightarrow> Inr subnet_devices)"

definition group_device ::
  "(string \<times> endpoint list) list \<Rightarrow> string \<times> device \<Rightarrow> exn + (string \<times> endpoint list) list"
where
  "group_device subnet_devices d =
     (case interfaces_of (snd d) of
        Inl e \<Rightarrow> Inl e
      | Inr l \<Rightarrow> fold_exn (group_interface (fst d)) l subnet_devices)"

text \<open>\<open>min(a, b)\<close> on two dict values: comparing with \<open>None\<close> raises \<open>TypeError\<close>.\<close>

definition py_min :: "int field \<Rightarrow> int field \<Rightarrow> exn + int" where
  "py_min x y =
     (case x of
        Absent \<Rightarrow> Inl KeyError
      | Null \<Rightarrow> (case y of Absent \<Rightarrow> Inl KeyError | _ \<Rightarrow> Inl TypeError)
      | Val a \<Rightarrow>
          (case y of Absent \<Rightarrow> Inl KeyError | Null \<Rightarrow> Inl TypeError | Val b \<Rightarrow> Inr (min a b)))"

text \<open>\<open>_add_link\<close>; \<open>self.graph\<close>, which nothing reads, is left out.\<close>

definition add_link ::
  "(string \<times> link) list \<Rightarrow> endpoint \<Rightarrow> endpoint \<Rightarrow> string \<Rightarrow> exn + (string \<times> link) list"
where
  "add_link ls d1 d2 sn =
     (let link_id = device_id d1 @ ''-'' @ device_id d2
      in case py_min (ep_bandwidth d1) (ep_bandwidth d2) of
           Inl e \<Rightarrow> Inl e
         | Inr link_bandwidth \<Rightarrow>
             Inr (dict_set ls link_id
                    \<lparr>device1 = d1, device2 = d2, subnet = Val sn,
                     bandwidth_mbps = link_bandwidth, current_utilization = 0\<rparr>))"

text \<open>\<open>for i, device1 in enumerate(xs): for device2 in xs[i+1:]\<close>\<close>

fun pairs :: "'a list \<Rightarrow> ('a \<times> 'a) list" where
  "pairs [] = []"
| "pairs (x # xs) = map (Pair x) xs @ pairs xs"

definition add_subnet_links ::
  "(string \<times> link) list \<Rightarrow> string \<times> endpoint list \<Rightarrow> exn + (string \<times> link) list"
where
  "add_subnet_links ls g =
     (if length (snd g) > 1
      then fold_exn (\<lambda>ls' p. add_link ls' (fst p) (snd p) (fst g)) (pairs (snd g)) ls
      else Inr ls)"

text \<open>\<open>_shares_vlan_segment\<close>; \<open>switch_vlans\<close> holds the values of \<open>vlan.get('id')\<close>.\<close>

definition shares_vlan_segment :: "device \<Rightarrow> int option list \<Rightarrow> exn + bool" where
  "shares_vlan_segment device_config switch_vlans =
     (case interfaces_of device_config of
        Inl e \<Rightarrow> Inl e
      | Inr l \<Rightarrow>
          (let device_vlans = filter truthy_int (map (\<lambda>i. get (vlan i)) l)
           in Inr (\<exists>v \<in> set device_vlans. v \<in> set switch_vlans)))"

definition mgmt_endpoint :: "string \<Rightarrow> endpoint" where
  "mgmt_endpoint d =
     \<lparr>device_id = d, interface = Some ''mgmt'', ep_ip_address = Absent, ep_bandwidth = Absent\<rparr>"

text \<open>\<open>_add_switch_link\<close>\<close>

definition add_switch_link ::
  "(string \<times> link) list \<Rightarrow> string \<Rightarrow> string \<Rightarrow> (string \<times> link) list"
where
  "add_switch_link ls switch_id dev_id =
     (let link_id = switch_id @ ''-'' @ dev_id
      in if link_id \<notin> set (map fst ls) \<and> dev_id @ ''-'' @ switch_id \<notin> set (map fst ls)
         then dict_set ls link_id
                \<lparr>device1 = mgmt_endpoint switch_id, device2 = mgmt_endpoint dev_id,
                 subnet = Absent, bandwidth_mbps = 1000, current_utilization = 0\<rparr>
         else ls)"

text \<open>
  The body of the inner loop of \<open>_connect_switches_to_segments\<close>, for one switch and one
  entry of \<open>self.devices\<close>.
\<close>

definition connect_switch_to ::
  "string \<Rightarrow> int option list \<Rightarrow> (string \<times> link) list \<Rightarrow> string \<times> device \<Rightarrow>
   exn + (string \<times> link) list"
where
  "connect_switch_to switch_id switch_vlans ls other =
     (if fst other \<noteq> switch_id \<and> switch_id \<notin> set (map (\<lambda>l. device_id (device1 (snd l))) ls)
      then
        (case shares_vlan_segment (snd other) switch_vlans of
           Inl e \<Rightarrow> Inl e
         | Inr True \<Rightarrow> Inr (add_switch_link ls switch_id (fst other))
         | Inr False \<Rightarrow>
             (if get (device_type (snd other)) = Some ''router'' then
                (case last_char switch_id of
                   Inl e \<Rightarrow> Inl e
                 | Inr switch_num \<Rightarrow>
                     (case last_char (fst other) of
                        Inl e \<Rightarrow> Inl e
                      | Inr router_num \<Rightarrow>
                          (if switch_num = router_num
                           then Inr (add_switch_link ls switch_id (fst other))
                           else Inr ls)))
              else Inr ls))
      else Inr ls)"

text \<open>\<open>[vlan.get('id') for vlan in switch_config.get('vlans', [])]\<close>\<close>

definition switch_vlans_of :: "device \<Rightarrow> exn + int option list" where
  "switch_vlans_of switch_config =
     (case get_or (vlans switch_config) [] of
        None \<Rightarrow> Inl TypeError
      | Some l \<Rightarrow> Inr (map (\<lambda>v. get (vlan_id v)) l))"

definition connect_switch ::
  "(string \<times> device) list \<Rightarrow> (string \<times> link) list \<Rightarrow> string \<times> device \<Rightarrow>
   exn + (string \<times> link) list"
where
  "connect_switch devs ls sw =
     (case switch_vlans_of (snd sw) of
        Inl e \<Rightarrow> Inl e
      | Inr switch_vlans \<Rightarrow> fold_exn (connect_switch_to (fst sw) switch_vlans) devs ls)"

definition connect_switches_to_segments ::
  "(string \<times> device) list \<Rightarrow> (string \<times> link) list \<Rightarrow> exn + (string \<times> link) list"
where
  "connect_switches_to_segments devs ls =
     (let switches = filter (\<lambda>d. get (device_type (snd d)) = Some ''switch'') devs
      in fold_exn (connect_switch devs) switches ls)"

text \<open>The subnet grouping and the subnet links of \<open>_build_connections\<close>, from no links.\<close>

definition group_by_subnet ::
  "(string \<times> device) list \<Rightarrow> exn + (string \<times> endpoint list) list"
where
  "group_by_subnet devs = fold_exn group_device devs []"

definition subnet_links ::
  "(string \<times> endpoint list) list \<Rightarrow> exn + (string \<times> link) list"
where
  "subnet_links subnet_devices = fold_exn add_subnet_links subnet_devices []"

definition build_connections :: "(string \<times> device) list \<Rightarrow> exn + (string \<times> link) list" where
  "build_connections devs =
     (case group_by_subnet devs of
        Inl e \<Rightarrow> Inl e
      | Inr subnet_devices \<Rightarrow>
          (case subnet_links subnet_devices of
             Inl e \<Rightarrow> Inl e
           | Inr ls \<Rightarrow> connect_switches_to_segments devs ls))"

text \<open>
  \<open>build_topology_from_configs\<close> on the parsed records, in the order of the files:
  each is stored under its \<open>device_name\<close> (a later record of the same name replaces the
  earlier one), then the links are built. The result is what \<open>export_to_json\<close> writes as
  \<open>devices\<close> and \<open>links\<close>.
\<close>

definition register :: "device list \<Rightarrow> (string \<times> device) list" where
  "register configs = foldl (\<lambda>d c. dict_set d (device_name c) c) [] configs"

definition build_topology :: "device list \<Rightarrow> exn + topology_data" where
  "build_topology configs =
     (let devs = register configs
      in case build_connections devs of
           Inl e \<Rightarrow> Inl e
         | Inr ls \<Rightarrow> Inr \<lparr>devices = devs, links = ls\<rparr>)"

section \<open>Graphs of the networkx library\<close>

text \<open>
  networkx is a library outside the repository; what the validator uses of it is modelled
  by its documented meaning. An \<open>nx.Graph\<close> is the list of its nodes and the list of its
  edges, both in insertion order; an edge is stored once, whatever its direction.
\<close>

type_synonym nx_graph = "string list \<times> (string \<times> string) list"

definition add_node :: "nx_graph \<Rightarrow> string \<Rightarrow> nx_graph" where
  "add_node g n = (if n \<in> set (fst g) then g else (fst g @ [n], snd g))"

definition add_edge :: "nx_graph \<Rightarrow> string \<Rightarrow> string \<Rightarrow> nx_graph" where
  "add_edge g u v =
     (let g1 = add_node (add_node g u) v
      in if (u, v) \<in> set (snd g1) \<or> (v, u) \<in> set (snd g1) then g1
         else (fst g1, snd g1 @ [(u, v)]))"

text \<open>\<open>nx.DiGraph(graph)\<close>: every edge in both directions.\<close>

definition directed_edges :: "nx_graph \<Rightarrow> (string \<times> string) list" where
  "directed_edges g =
     concat (map (\<lambda>e. if fst e = snd e then [e] else [e, (snd e, fst e)]) (snd g))"

definition to_directed :: "nx_graph \<Rightarrow> nx_graph" where
  "to_directed g = (fst g, directed_edges g)"

text \<open>\<open>nx.has_path(G, source, target)\<close>, both nodes in the graph: a path joins them.\<close>

definition has_path :: "nx_graph \<Rightarrow> string \<Rightarrow> string \<Rightarrow> bool" where
  "has_path g s t = (s = t \<or> (s, t) \<in> (set (directed_edges g))\<^sup>+)"

text \<open>
  \<open>nx.number_connected_components\<close>. The component of a node is listed in node order, so
  two nodes of one component have the same list.
\<close>

definition component :: "nx_graph \<Rightarrow> string \<Rightarrow> string list" where
  "component g v = filter (has_path g v) (fst g)"

definition number_connected_components :: "nx_graph \<Rightarrow> nat" where
  "number_connected_components g = length (remdups (map (component g) (fst g)))"

definition remove_node :: "nx_graph \<Rightarrow> string \<Rightarrow> nx_graph" where
  "remove_node g v = (removeAll v (fst g), filter (\<lambda>e. fst e \<noteq> v \<and> snd e \<noteq> v) (snd g))"

definition remove_edge :: "nx_graph \<Rightarrow> string \<times> string \<Rightarrow> nx_graph" where
  "remove_edge g e = (fst g, filter (\<lambda>e'. e' \<noteq> e \<and> e' \<noteq> (snd e, fst e)) (snd g))"

text \<open>
  \<open>nx.articulation_points\<close>: the nodes whose removal, with their edges, increases the
  number of connected components, each once. networkx promises no order; the model
  lists them in node order.
\<close>

definition articulation_points :: "nx_graph \<Rightarrow> string list" where
  "articulation_points g =
     filter (\<lambda>v. number_connected_components g < number_connected_components (remove_node g v))
       (fst g)"

text \<open>
  \<open>G.edges()\<close>: for every node in order, its neighbours in the order its edges were added,
  those not yet visited as a node.
\<close>

definition neighbors :: "nx_graph \<Rightarrow> string \<Rightarrow> string list" where
  "neighbors g n =
     concat (map (\<lambda>e. if fst e = n then [snd e] else if snd e = n then [fst e] else []) (snd g))"

fun edges_from :: "nx_graph \<Rightarrow> string list \<Rightarrow> string list \<Rightarrow> (string \<times> string) list" where
  "edges_from g seen [] = []"
| "edges_from g seen (n # ns) =
     map (Pair n) (filter (\<lambda>m. m \<notin> set seen) (neighbors g n)) @ edges_from g (n # seen) ns"

definition nx_edges :: "nx_graph \<Rightarrow> (string \<times> string) list" where
  "nx_edges g = edges_from g [] (fst g)"

text \<open>
  \<open>nx.bridges\<close>: the edges, in the order of \<open>G.edges()\<close>, whose removal increases the
  number of connected components.
\<close>

definition bridges :: "nx_graph \<Rightarrow> (string \<times> string) list" where
  "bridges g =
     filter (\<lambda>e. number_connected_components g < number_connected_components (remove_edge g e))
       (nx_edges g)"

text \<open>
  \<open>nx.simple_cycles\<close> yields every elementary circuit of a directed graph once, as the
  list of its nodes; neither the order of the circuits nor the node a circuit starts
  from is promised. The validator below takes the enumeration as an argument;
  \<open>elementary_cycles\<close> is one such enumeration, every circuit starting from its first node
  in node order.
\<close>

fun cycles_through ::
  "nat \<Rightarrow> (string \<times> string) list \<Rightarrow> string \<Rightarrow> string list \<Rightarrow> string list \<Rightarrow> string list list"
where
  "cycles_through 0 es s allowed path = []"
| "cycles_through (Suc n) es s allowed path =
     (if (last path, s) \<in> set es then [path] else []) @
     concat (map (\<lambda>v. cycles_through n es s allowed (path @ [v]))
               (filter (\<lambda>v. (last path, v) \<in> set es \<and> v \<notin> set path) allowed))"

fun cycles_from :: "(string \<times> string) list \<Rightarrow> string list \<Rightarrow> string list list" where
  "cycles_from es [] = []"
| "cycles_from es (s # rest) =
     cycles_through (Suc (length rest)) es s rest [s] @ cycles_from es rest"

definition elementary_cycles :: "nx_graph \<Rightarrow> exn + string list list" where
  "elementary_cycles g = Inr (cycles_from (snd g) (fst g))"

section \<open>Validation rules\<close>

subsection \<open>IP conflicts\<close>

text \<open>\<open>interface.get('vlan', 'default')\<close>\<close>

fun vlan_ref_of :: "int field \<Rightarrow> vlan_ref" where
  "vlan_ref_of Absent = VlanDefault"
| "vlan_ref_of Null = VlanNone"
| "vlan_ref_of (Val n) = VlanId n"

fun str_vlan_ref :: "vlan_ref \<Rightarrow> string" where
  "str_vlan_ref VlanDefault = ''default''"
| "str_vlan_ref VlanNone = ''None''"
| "str_vlan_ref (VlanId n) = py_str_int n"

type_synonym ip_usage = "((string \<times> vlan_ref) \<times> (string \<times> string option \<times> vlan_ref) list) list"

definition record_interface :: "string \<Rightarrow> ip_usage \<Rightarrow> interface \<Rightarrow> exn + ip_usage" where
  "record_interface dev_id usage i =
     (case get (ip_address i) of
        None \<Rightarrow> Inr usage
      | Some ip \<Rightarrow>
          (if ip \<noteq> [] then
             (case item (name i) of
                Inl e \<Rightarrow> Inl e
              | Inr nm \<Rightarrow>
                  Inr (dict_append usage (ip, vlan_ref_of (vlan i))
                         (dev_id, nm, vlan_ref_of (vlan i))))
           else Inr usage))"

definition record_device :: "ip_usage \<Rightarrow> string \<times> device \<Rightarrow> exn + ip_usage" where
  "record_device usage d =
     (case interfaces_of (snd d) of
        Inl e \<Rightarrow> Inl e
      | Inr l \<Rightarrow> fold_exn (record_interface (fst d)) l usage)"

definition conflict_of ::
  "(string \<times> vlan_ref) \<times> (string \<times> string option \<times> vlan_ref) list \<Rightarrow> issue"
where
  "conflict_of g = IpConflictIssue (fst (fst g)) (snd (fst g)) (snd g) ''critical''"

definition conflict_suggestion :: "issue \<Rightarrow> string" where
  "conflict_suggestion c =
     (case c of
        IpConflictIssue ip v _ _ \<Rightarrow> ''Resolve IP conflict for '' @ ip @ '' in VLAN '' @ str_vlan_ref v
      | _ \<Rightarrow> [])"

definition check_ip_conflicts :: "topology_data \<Rightarrow> exn + rule_result" where
  "check_ip_conflicts t =
     (case fold_exn record_device (devices t) [] of
        Inl e \<Rightarrow> Inl e
      | Inr usage \<Rightarrow>
          (let conflicts = map conflict_of (filter (\<lambda>g. length (snd g) > 1) usage)
           in Inr \<lparr>status = (if conflicts \<noteq> [] then ''fail'' else ''pass''),
                   issues = conflicts,
                   suggestions = map conflict_suggestion conflicts\<rparr>))"

subsection \<open>Loops\<close>

definition add_infrastructure_node :: "nx_graph \<Rightarrow> string \<times> device \<Rightarrow> exn + nx_graph" where
  "add_infrastructure_node g d =
     (case item (device_type (snd d)) of
        Inl e \<Rightarrow> Inl e
      | Inr ty \<Rightarrow>
          Inr (if ty = Some ''router'' \<or> ty = Some ''switch'' then add_node g (fst d) else g))"

definition add_infrastructure_edge :: "nx_graph \<Rightarrow> string \<times> link \<Rightarrow> nx_graph" where
  "add_infrastructure_edge g l =
     (let d1 = device_id (device1 (snd l)); d2 = device_id (device2 (snd l))
      in if d1 \<in> set (fst g) \<and> d2 \<in> set (fst g) then add_edge g d1 d2 else g)"

definition loop_issue :: "string list \<Rightarrow> issue" where
  "loop_issue cycle =
     LoopIssue cycle (length cycle) ''warning'' ''Verify spanning-tree protocol configuration''"

text \<open>
  The check for a spanning-tree marker reads \<open>str(device_config).lower()\<close>; the printed
  form of a dict is an argument, \<open>device_str_lower\<close>.
\<close>

definition stp_issue :: "(device \<Rightarrow> string) \<Rightarrow> string \<times> device \<Rightarrow> exn + issue list" where
  "stp_issue device_str_lower d =
     (case item (device_type (snd d)) of
        Inl e \<Rightarrow> Inl e
      | Inr ty \<Rightarrow>
          Inr (if ty = Some ''switch'' \<and> \<not> contains ''spanning-tree'' (device_str_lower (snd d))
               then [StpIssue (fst d) ''No spanning-tree configuration detected'' ''warning'']
               else []))"

text \<open>The graph of the routers and switches and of the links between them.\<close>

definition infrastructure_graph :: "topology_data \<Rightarrow> exn + nx_graph" where
  "infrastructure_graph t =
     (case fold_exn add_infrastructure_node (devices t) ([], []) of
        Inl e \<Rightarrow> Inl e
      | Inr g0 \<Rightarrow> Inr (foldl add_infrastructure_edge g0 (links t)))"

text \<open>
  \<open>check_network_loops\<close>. The \<open>try\<close> around \<open>nx.simple_cycles\<close> swallows every exception
  of the enumeration.
\<close>

definition check_network_loops ::
  "(nx_graph \<Rightarrow> exn + string list list) \<Rightarrow> (device \<Rightarrow> string) \<Rightarrow> topology_data \<Rightarrow>
   exn + rule_result"
where
  "check_network_loops simple_cycles device_str_lower t =
     (case infrastructure_graph t of
        Inl e \<Rightarrow> Inl e
      | Inr graph \<Rightarrow>
          (let loops = (case simple_cycles (to_directed graph) of
                          Inl e \<Rightarrow> []
                        | Inr cycles \<Rightarrow> map loop_issue (filter (\<lambda>cycle. length cycle > 2) cycles))
           in case map_exn (stp_issue device_str_lower) (devices t) of
                Inl e \<Rightarrow> Inl e
              | Inr stp \<Rightarrow>
                  (let all_issues = loops @ concat stp
                   in Inr \<lparr>status = (if all_issues \<noteq> [] then ''warning'' else ''pass''),
                           issues = all_issues,
                           suggestions =
                             [''Enable and configure spanning-tree protocol on all switches'',
                              ''Consider implementing rapid spanning-tree (RSTP) for faster convergence'']\<rparr>)))"

subsection \<open>Missing components\<close>

text \<open>The first loop: the graph's nodes, the routers and the endpoints.\<close>

definition classify_device ::
  "nx_graph \<times> string list \<times> string list \<Rightarrow> string \<times> device \<Rightarrow>
   exn + nx_graph \<times> string list \<times> string list"
where
  "classify_device acc d =
     (case acc of (g, routers, endpoints) \<Rightarrow>
        (case item (device_type (snd d)) of
           Inl e \<Rightarrow> Inl e
         | Inr ty \<Rightarrow>
             Inr (if ty = Some ''router'' then (add_node g (fst d), routers @ [fst d], endpoints)
                  else if ty = Some ''endpoint''
                  then (add_node g (fst d), routers, endpoints @ [fst d])
                  else (add_node g (fst d), routers, endpoints))))"

definition add_link_edge :: "nx_graph \<Rightarrow> string \<times> link \<Rightarrow> nx_graph" where
  "add_link_edge g l = add_edge g (device_id (device1 (snd l))) (device_id (device2 (snd l)))"

definition endpoint_issue :: "string \<Rightarrow> issue" where
  "endpoint_issue e =
     EndpointIssue e (''Endpoint '' @ e @ '' has no path to any router'') ''critical''
       (''Add switch/router configuration for '' @ e @ '' connectivity'')"

definition dhcp_issue :: "string \<Rightarrow> issue" where
  "dhcp_issue sn =
     DhcpIssue sn (''No DHCP server configuration found for subnet '' @ sn) ''warning''
       ''Configure DHCP server or DHCP relay agent''"

text \<open>
  The set of the subnets of the links. Python does not fix the order in which a set is
  iterated; the model lists the subnets in the order of their first link.
\<close>

definition link_subnets :: "(string \<times> link) list \<Rightarrow> string list" where
  "link_subnets ls =
     rev (remdups (rev (concat (map (\<lambda>l. case get (subnet (snd l)) of
                                            None \<Rightarrow> []
                                          | Some sn \<Rightarrow> (if sn \<noteq> [] then [sn] else [])) ls))))"

text \<open>The status of the rules that fail on a critical issue.\<close>

definition status_of :: "issue list \<Rightarrow> string" where
  "status_of found =
     (if \<exists>i \<in> set found. severity i = ''critical'' then ''fail''
      else if found \<noteq> [] then ''warning'' else ''pass'')"

definition check_missing_components :: "topology_data \<Rightarrow> exn + rule_result" where
  "check_missing_components t =
     (case fold_exn classify_device (devices t) (([], []), [], []) of
        Inl e \<Rightarrow> Inl e
      | Inr (g0, routers, endpoints) \<Rightarrow>
          (let graph = foldl add_link_edge g0 (links t);
               isolated = filter (\<lambda>e. \<not> (\<exists>r \<in> set routers. has_path graph e r)) endpoints;
               missing_components =
                 map endpoint_issue isolated @
                 (if length routers = 0 then map dhcp_issue (link_subnets (links t)) else [])
           in Inr \<lparr>status = status_of missing_components,
                   issues = missing_components,
                   suggestions =
                     [''Ensure all endpoints have connectivity to network infrastructure'']\<rparr>))"

subsection \<open>Redundancy\<close>

fun py_str_opt :: "string option \<Rightarrow> string" where
  "py_str_opt None = ''None''"
| "py_str_opt (Some s) = s"

definition connectivity_graph :: "topology_data \<Rightarrow> nx_graph" where
  "connectivity_graph t =
     foldl add_link_edge (foldl add_node ([], []) (map fst (devices t))) (links t)"

text \<open>\<open>topology_data['devices'][node]['device_type']\<close> and the issue of one articulation point.\<close>

definition spof_device_issue :: "topology_data \<Rightarrow> string \<Rightarrow> exn + issue" where
  "spof_device_issue t node =
     (case map_of (devices t) node of
        None \<Rightarrow> Inl KeyError
      | Some cfg \<Rightarrow>
          (case item (device_type cfg) of
             Inl e \<Rightarrow> Inl e
           | Inr ty \<Rightarrow>
               Inr (SpofDeviceIssue node ty
                      (py_str_opt ty @ '' '' @ node @ '' is a single point of failure'')
                      (''Add redundant paths around '' @ node)
                      (if ty = Some ''router'' then ''critical'' else ''warning''))))"

definition spof_link_issue :: "string \<times> string \<Rightarrow> issue" where
  "spof_link_issue b =
     SpofLinkIssue (fst b @ ''-'' @ snd b)
       (''Link between '' @ fst b @ '' and '' @ snd b @ '' is a single point of failure'')
       ''Add redundant links or alternative paths'' ''warning''"

definition check_redundancy :: "topology_data \<Rightarrow> exn + rule_result" where
  "check_redundancy t =
     (let graph = connectivity_graph t
      in case map_exn (spof_device_issue t) (articulation_points graph) of
           Inl e \<Rightarrow> Inl e
         | Inr device_issues \<Rightarrow>
             (let redundancy_issues = device_issues @ map spof_link_issue (bridges graph)
              in Inr \<lparr>status = status_of redundancy_issues,
                      issues = redundancy_issues,
                      suggestions =
                        [''Implement redundant paths and eliminate single points of failure'']\<rparr>))"

subsection \<open>Capacity\<close>

text \<open>
  The traffic analysis maps \<open>link_utilization\<close> to a dict from link ids to records whose
  \<open>utilization_percent\<close> is a float. Comparing \<open>None\<close> with a number raises \<open>TypeError\<close>.
\<close>

record utilization_info =
  utilization_percent :: "rat field"

type_synonym traffic_analysis = "(string \<times> (string \<times> utilization_info) list) list"

definition capacity_issue :: "string \<times> utilization_info \<Rightarrow> exn + issue list" where
  "capacity_issue u =
     (case get_or (utilization_percent (snd u)) 0 of
        None \<Rightarrow> Inl TypeError
      | Some p \<Rightarrow>
          Inr (if p > 90 then
                 [CapacityIssue (fst u) p ''Immediate capacity upgrade required'' ''critical'']
               else if p > 75 then
                 [CapacityIssue (fst u) p ''Plan capacity upgrade or load balancing'' ''warning'']
               else []))"

definition check_capacity_adequacy :: "topology_data \<Rightarrow> traffic_analysis \<Rightarrow> exn + rule_result" where
  "check_capacity_adequacy t traffic =
     (if traffic = [] then Inr \<lparr>status = ''pass'', issues = [], suggestions = []\<rparr>
      else
        (let link_utilization =
               (case map_of traffic ''link_utilization'' of None \<Rightarrow> [] | Some d \<Rightarrow> d)
         in case map_exn capacity_issue link_utilization of
              Inl e \<Rightarrow> Inl e
            | Inr found \<Rightarrow>
                Inr \<lparr>status = status_of (concat found),
                        issues = concat found,
                        suggestions =
                          [''Monitor link utilization and plan capacity upgrades proactively'']\<rparr>))"

section \<open>Notions of the specification\<close>

subsection \<open>Outcomes of a validation run\<close>

text \<open>
  What each rule of the table returns or raises when the engine calls it, in the order of
  the table, and the number of rules that return a given status.
\<close>

definition outcomes ::
  "(string \<times> 'v rule_function) list \<Rightarrow> topology_data \<Rightarrow> (string \<times> 'v) list option \<Rightarrow>
   (exn + rule_result) list"
where
  "outcomes rules t traffic = map (\<lambda>r. invoke_rule (fst r) (snd r) t traffic) rules"

definition count_status :: "string \<Rightarrow> (exn + rule_result) list \<Rightarrow> nat" where
  "count_status s os =
     length (filter (\<lambda>out. case out of Inl e \<Rightarrow> False | Inr r \<Rightarrow> status r = s) os)"

definition evaluated_checks :: "(exn + rule_result) list \<Rightarrow> nat" where
  "evaluated_checks os =
     count_status ''pass'' os + count_status ''fail'' os + count_status ''warning'' os"

definition detail_of :: "exn + rule_result \<Rightarrow> detailed_result" where
  "detail_of out = (case out of Inl e \<Rightarrow> RuleError e | Inr r \<Rightarrow> RuleResult r)"

text \<open>
  The score of the specification,
  \<open>(passed * 100 + warnings * 50) / (evaluated * 100) * 100\<close>, in binary64 arithmetic.
\<close>

definition score_formula :: "nat \<Rightarrow> nat \<Rightarrow> nat \<Rightarrow> rat" where
  "score_formula passed warned evaluated =
     fl64 (fl64 (of_nat (passed * 100 + warned * 50) / of_nat (evaluated * 100)) * 100)"

text \<open>The issues of the rules that return a given status, and the suggestions of all rules.\<close>

definition issues_with_status :: "string \<Rightarrow> (exn + rule_result) list \<Rightarrow> issue list" where
  "issues_with_status s os =
     concat (map (\<lambda>out. case out of
                           Inl e \<Rightarrow> []
                         | Inr r \<Rightarrow> (if status r = s then issues r else [])) os)"

definition all_suggestions :: "(exn + rule_result) list \<Rightarrow> string list" where
  "all_suggestions os =
     concat (map (\<lambda>out. case out of Inl e \<Rightarrow> [] | Inr r \<Rightarrow> suggestions r) os)"

subsection \<open>Address groups\<close>

text \<open>
  The interfaces of a device as the rules iterate them, and the entry an interface with
  an address adds to its group: the group key \<open>(ip_address, vlan)\<close> and the member
  \<open>(device, interface, vlan)\<close>. \<open>address_entries\<close> lists the entries of all interfaces of
  all devices; \<open>members\<close> is the group of a key.
\<close>

definition interface_list :: "device \<Rightarrow> interface list" where
  "interface_list d = (case get_or (interfaces d) [] of None \<Rightarrow> [] | Some l \<Rightarrow> l)"

definition interface_entries ::
  "string \<Rightarrow> interface \<Rightarrow> ((string \<times> vlan_ref) \<times> (string \<times> string option \<times> vlan_ref)) list"
where
  "interface_entries dev_id i =
     (case get (ip_address i) of
        None \<Rightarrow> []
      | Some ip \<Rightarrow>
          (if ip \<noteq> []
           then [((ip, vlan_ref_of (vlan i)), (dev_id, get (name i), vlan_ref_of (vlan i)))]
           else []))"

definition device_entries ::
  "string \<times> device \<Rightarrow> ((string \<times> vlan_ref) \<times> (string \<times> string option \<times> vlan_ref)) list"
where
  "device_entries d = concat (map (interface_entries (fst d)) (interface_list (snd d)))"

definition address_entries ::
  "topology_data \<Rightarrow> ((string \<times> vlan_ref) \<times> (string \<times> string option \<times> vlan_ref)) list"
where
  "address_entries t = concat (map device_entries (devices t))"

definition members :: "'k \<Rightarrow> ('k \<times> 'v) list \<Rightarrow> 'v list" where
  "members k es = map snd (filter (\<lambda>e. fst e = k) es)"

text \<open>
  The records on which the IP-conflict rule raises nothing: no \<open>interfaces\<close> is \<open>None\<close>
  and every interface with an address has a \<open>name\<close> key.
\<close>

definition named_interfaces :: "topology_data \<Rightarrow> bool" where
  "named_interfaces t =
     (\<forall>d \<in> set (devices t). interfaces (snd d) \<noteq> Null \<and>
        (\<forall>i \<in> set (interface_list (snd d)). interface_entries (fst d) i \<noteq> [] \<longrightarrow> name i \<noteq> Absent))"

fun conflict_key :: "issue \<Rightarrow> (string \<times> vlan_ref) option" where
  "conflict_key (IpConflictIssue ip v _ _) = Some (ip, v)"
| "conflict_key _ = None"

subsection \<open>Loop issues\<close>

fun is_loop_issue :: "issue \<Rightarrow> bool" where
  "is_loop_issue (LoopIssue _ _ _ _) = True"
| "is_loop_issue _ = False"

subsection \<open>Paths to a router\<close>

text \<open>
  The pairs of devices that a link joins, the relation of being joined by a link in
  either direction, and the endpoints that no sequence of links joins to a router.
\<close>

definition link_pairs :: "topology_data \<Rightarrow> (string \<times> string) list" where
  "link_pairs t = map (\<lambda>l. (device_id (device1 (snd l)), device_id (device2 (snd l)))) (links t)"

definition link_relation :: "topology_data \<Rightarrow> (string \<times> string) set" where
  "link_relation t = set (link_pairs t) \<union> (set (link_pairs t))\<inverse>"

definition devices_of_type :: "string \<Rightarrow> topology_data \<Rightarrow> string list" where
  "devices_of_type ty t =
     map fst (filter (\<lambda>d. get (device_type (snd d)) = Some ty) (devices t))"

definition isolated :: "topology_data \<Rightarrow> string \<Rightarrow> bool" where
  "isolated t e =
     (e \<in> set (devices_of_type ''endpoint'' t) \<and>
      (\<forall>r \<in> set (devices_of_type ''router'' t). (e, r) \<notin> (link_relation t)\<^sup>*))"

text \<open>Every device has a \<open>device_type\<close> key: the rules that read it raise nothing.\<close>

definition typed_devices :: "topology_data \<Rightarrow> bool" where
  "typed_devices t = (\<forall>d \<in> set (devices t). device_type (snd d) \<noteq> Absent)"

fun endpoint_of_issue :: "issue \<Rightarrow> string option" where
  "endpoint_of_issue (EndpointIssue e _ _ _) = Some e"
| "endpoint_of_issue _ = None"

subsection \<open>Single points of failure\<close>

text \<open>
  The invariant of the topology graph: both ends of every link are devices of the table.
\<close>

definition closed_links :: "topology_data \<Rightarrow> bool" where
  "closed_links t =
     (\<forall>p \<in> set (link_pairs t). fst p \<in> set (map fst (devices t)) \<and> snd p \<in> set (map fst (devices t)))"

definition device_type_of :: "topology_data \<Rightarrow> string \<Rightarrow> string option" where
  "device_type_of t v = (case map_of (devices t) v of None \<Rightarrow> None | Some cfg \<Rightarrow> get (device_type cfg))"

text \<open>The issue the specification asks for an articulation point.\<close>

definition spof_device :: "topology_data \<Rightarrow> string \<Rightarrow> issue" where
  "spof_device t v =
     SpofDeviceIssue v (device_type_of t v)
       (py_str_opt (device_type_of t v) @ '' '' @ v @ '' is a single point of failure'')
       (''Add redundant paths around '' @ v)
       (if device_type_of t v = Some ''router'' then ''critical'' else ''warning'')"

subsection \<open>Subnet links\<close>

text \<open>
  A link with a subnet tag, and the links of the topology that carry a given tag.
\<close>

definition is_subnet_link :: "string \<times> link \<Rightarrow> bool" where
  "is_subnet_link l = (subnet (snd l) \<noteq> Absent)"

definition links_of_subnet :: "topology_data \<Rightarrow> string \<Rightarrow> (string \<times> link) list" where
  "links_of_subnet t sn = filter (\<lambda>l. subnet (snd l) = Val sn) (links t)"

text \<open>
  The calls of \<open>_add_link\<close> for a subnet group, each with the subnet and the two members,
  the link id a call writes to, the link it stores there, and the number of unordered
  pairs of \<open>n\<close> members.
\<close>

definition group_pairs :: "string \<times> endpoint list \<Rightarrow> (string \<times> endpoint \<times> endpoint) list" where
  "group_pairs g = (if 1 < length (snd g) then map (Pair (fst g)) (pairs (snd g)) else [])"

definition link_calls ::
  "(string \<times> endpoint list) list \<Rightarrow> (string \<times> endpoint \<times> endpoint) list"
where
  "link_calls sd = concat (map group_pairs sd)"

definition call_id :: "string \<times> endpoint \<times> endpoint \<Rightarrow> string" where
  "call_id c = device_id (fst (snd c)) @ ''-'' @ device_id (snd (snd c))"

definition subnet_link :: "string \<times> endpoint \<times> endpoint \<Rightarrow> link" where
  "subnet_link c =
     \<lparr>device1 = fst (snd c), device2 = snd (snd c), subnet = Val (fst c),
      bandwidth_mbps =
        (case py_min (ep_bandwidth (fst (snd c))) (ep_bandwidth (snd (snd c))) of
           Inl e \<Rightarrow> 0 | Inr b \<Rightarrow> b),
      current_utilization = 0\<rparr>"

definition store_link ::
  "(string \<times> link) list \<Rightarrow> string \<times> endpoint \<times> endpoint \<Rightarrow> (string \<times> link) list"
where
  "store_link ls c = dict_set ls (call_id c) (subnet_link c)"

definition expected_links :: "nat \<Rightarrow> nat" where
  "expected_links n = n * (n - 1) div 2"

text \<open>
  For a list of device records: the sizes of the subnet groups, and the number of links
  of the built topology that carry the tag of each group.
\<close>

definition group_sizes :: "device list \<Rightarrow> (string \<times> nat) list" where
  "group_sizes ds =
     (case group_by_subnet (register ds) of
        Inl e \<Rightarrow> []
      | Inr sd \<Rightarrow> map (\<lambda>g. (fst g, length (snd g))) sd)"

definition subnet_link_counts :: "device list \<Rightarrow> (string \<times> nat) list" where
  "subnet_link_counts ds =
     (case build_topology ds of
        Inl e \<Rightarrow> []
      | Inr t \<Rightarrow> map (\<lambda>g. (fst g, length (links_of_subnet t (fst g)))) (group_sizes ds))"

subsection \<open>Switch links\<close>

text \<open>
  The first ends of the links, the link \<open>_add_switch_link\<close> stores, and what the two
  strategies ask for: a shared VLAN or, failing that, a router whose name ends as the
  name of the switch does.
\<close>

definition first_ends :: "(string \<times> link) list \<Rightarrow> string list" where
  "first_ends ls = map (\<lambda>l. device_id (device1 (snd l))) ls"

definition switch_link :: "string \<Rightarrow> string \<Rightarrow> string \<times> link" where
  "switch_link sw d =
     (sw @ ''-'' @ d,
      \<lparr>device1 = mgmt_endpoint sw, device2 = mgmt_endpoint d, subnet = Absent,
       bandwidth_mbps = 1000, current_utilization = 0\<rparr>)"

definition wants_link :: "string \<Rightarrow> int option list \<Rightarrow> string \<times> device \<Rightarrow> bool" where
  "wants_link sw switch_vlans other =
     (shares_vlan_segment (snd other) switch_vlans = Inr True \<or>
      (shares_vlan_segment (snd other) switch_vlans = Inr False \<and>
       get (device_type (snd other)) = Some ''router'' \<and>
       sw \<noteq> [] \<and> fst other \<noteq> [] \<and> last sw = last (fst other)))"

text \<open>
  A link that the switch step adds for the devices \<open>devs\<close> on top of the links \<open>ls\<close>: a
  switch link from a switch that starts no link of \<open>ls\<close> to another device that one of
  the strategies asks for.
\<close>

definition added_switch_link ::
  "(string \<times> device) list \<Rightarrow> (string \<times> link) list \<Rightarrow> string \<times> link \<Rightarrow> bool"
where
  "added_switch_link devs ls l =
     (\<exists>sw \<in> set devs. \<exists>other \<in> set devs.
        get (device_type (snd sw)) = Some ''switch'' \<and>
        l = switch_link (fst sw) (fst other) \<and> fst other \<noteq> fst sw \<and>
        fst sw \<notin> set (first_ends ls) \<and>
        (\<exists>vl. switch_vlans_of (snd sw) = Inr vl \<and> wants_link (fst sw) vl other))"

definition switch_link_ids :: "device list \<Rightarrow> string list" where
  "switch_link_ids ds =
     (case build_topology ds of
        Inl e \<Rightarrow> []
      | Inr t \<Rightarrow> map fst (filter (\<lambda>l. \<not> is_subnet_link l) (links t)))"

section \<open>Sample inputs\<close>

text \<open>
  The five rules modelled above, under their names in \<open>self.validation_rules\<close> and in its
  order; the cycle enumeration is \<open>elementary_cycles\<close> and no device prints a
  spanning-tree marker.
\<close>

definition modelled_rules :: "(string \<times> (string \<times> utilization_info) list rule_function) list" where
  "modelled_rules =
     [(''ip_conflicts'', Rule1 check_ip_conflicts),
      (''network_loops'', Rule1 (check_network_loops elementary_cycles (\<lambda>d. []))),
      (''missing_components'', Rule1 check_missing_components),
      (''redundancy_analysis'', Rule1 check_redundancy),
      (''capacity_validation'', Rule2 check_capacity_adequacy)]"

definition plain_interface :: "string \<Rightarrow> string \<Rightarrow> string \<Rightarrow> interface" where
  "plain_interface nm ip msk =
     \<lparr>name = Val nm, ip_address = Val ip, subnet_mask = Val msk, vlan = Null,
      mtu = Val 1500, bandwidth = Val 100000\<rparr>"

definition plain_device :: "string \<Rightarrow> string \<Rightarrow> interface list \<Rightarrow> device" where
  "plain_device nm ty ifs =
     \<lparr>device_name = nm, device_type = Val ty, interfaces = Val ifs, vlans = Val []\<rparr>"

definition plain_link :: "string \<Rightarrow> string \<Rightarrow> string \<Rightarrow> link" where
  "plain_link a b sn =
     \<lparr>device1 = \<lparr>device_id = a, interface = Some ''e0'', ep_ip_address = Val sn,
                 ep_bandwidth = Val 100\<rparr>,
      device2 = \<lparr>device_id = b, interface = Some ''e0'', ep_ip_address = Val sn,
                 ep_bandwidth = Val 100\<rparr>,
      subnet = Val sn, bandwidth_mbps = 100, current_utilization = 0\<rparr>"

text \<open>The chain A, B, C: a router, a switch and an endpoint.\<close>

definition chain_topology :: topology_data where
  "chain_topology =
     \<lparr>devices =
        [(''A'', plain_device ''A'' ''router'' [plain_interface ''e0'' ''10.0.1.1'' ''255.255.255.0'']),
         (''B'', plain_device ''B'' ''switch'' []),
         (''C'', plain_device ''C'' ''endpoint'' [plain_interface ''e0'' ''10.0.2.9'' ''255.255.255.0''])],
      links = [(''A-B'', plain_link ''A'' ''B'' ''10.0.1.0''), (''B-C'', plain_link ''B'' ''C'' ''10.0.2.0'')]\<rparr>"

text \<open>
  A topology on which every modelled rule raises: the middle device of a chain has no
  \<open>device_type\<close>, and its addressed interface has no \<open>name\<close>.
\<close>

definition broken_topology :: topology_data where
  "broken_topology =
     \<lparr>devices =
        [(''X'', \<lparr>device_name = ''X'', device_type = Absent,
                  interfaces = Val [\<lparr>name = Absent, ip_address = Val ''10.0.0.1'',
                                     subnet_mask = Absent, vlan = Absent, mtu = Absent,
                                     bandwidth = Absent\<rparr>],
                  vlans = Absent\<rparr>),
         (''Y'', plain_device ''Y'' ''router'' []),
         (''Z'', plain_device ''Z'' ''endpoint'' [])],
      links = [(''X-Y'', plain_link ''X'' ''Y'' ''10.0.0.0''), (''X-Z'', plain_link ''X'' ''Z'' ''10.0.9.0'')]\<rparr>"

text \<open>Three routers in a ring, and two interfaces with one address in one VLAN.\<close>

definition ring_topology :: topology_data where
  "ring_topology =
     \<lparr>devices =
        [(''R1'', plain_device ''R1'' ''router'' []),
         (''R2'', plain_device ''R2'' ''router'' []),
         (''R3'', plain_device ''R3'' ''router'' [])],
      links = [(''R1-R2'', plain_link ''R1'' ''R2'' ''10.0.1.0''),
               (''R2-R3'', plain_link ''R2'' ''R3'' ''10.0.2.0''),
               (''R1-R3'', plain_link ''R1'' ''R3'' ''10.0.3.0'')]\<rparr>"

definition vlan_interface :: "string \<Rightarrow> string \<Rightarrow> int \<Rightarrow> interface" where
  "vlan_interface nm ip v =
     \<lparr>name = Val nm, ip_address = Val ip, subnet_mask = Val ''255.255.255.0'', vlan = Val v,
      mtu = Val 1500, bandwidth = Val 100000\<rparr>"

definition conflict_topology :: topology_data where
  "conflict_topology =
     \<lparr>devices =
        [(''PC1'', plain_device ''PC1'' ''endpoint'' [vlan_interface ''e0'' ''10.0.0.5'' 10]),
         (''PC2'', plain_device ''PC2'' ''endpoint'' [vlan_interface ''e0'' ''10.0.0.5'' 10]),
         (''PC3'', plain_device ''PC3'' ''endpoint'' [vlan_interface ''e0'' ''10.0.0.5'' 20])],
      links = []\<rparr>"

text \<open>A router, an endpoint linked to it and an endpoint without links.\<close>

definition stray_topology :: topology_data where
  "stray_topology =
     \<lparr>devices =
        [(''R1'', plain_device ''R1'' ''router'' []),
         (''PC1'', plain_device ''PC1'' ''endpoint'' []),
         (''PC2'', plain_device ''PC2'' ''endpoint'' [])],
      links = [(''R1-PC1'', plain_link ''R1'' ''PC1'' ''10.0.1.0'')]\<rparr>"

text \<open>
  Two routers joined through two subnets; three devices of one subnet; a switch with
  VLAN 10 and two endpoints on VLAN 10 without addresses.
\<close>

definition parallel_devices :: "device list" where
  "parallel_devices =
     [plain_device ''R1'' ''router''
        [plain_interface ''g0'' ''10.0.0.1'' ''255.255.255.0'',
         plain_interface ''g1'' ''10.0.1.1'' ''255.255.255.0''],
      plain_device ''R2'' ''router''
        [plain_interface ''g0'' ''10.0.0.2'' ''255.255.255.0'',
         plain_interface ''g1'' ''10.0.1.2'' ''255.255.255.0'']]"

definition lan_devices :: "device list" where
  "lan_devices =
     [plain_device ''A'' ''router'' [plain_interface ''g0'' ''10.0.0.1'' ''255.255.255.0''],
      plain_device ''B'' ''endpoint'' [plain_interface ''e0'' ''10.0.0.2'' ''255.255.255.0''],
      plain_device ''C'' ''endpoint'' [plain_interface ''e0'' ''10.0.0.3'' ''255.255.255.0'']]"

definition access_interface :: "string \<Rightarrow> int \<Rightarrow> interface" where
  "access_interface nm v =
     \<lparr>name = Val nm, ip_address = Null, subnet_mask = Null, vlan = Val v, mtu = Val 1500,
      bandwidth = Val 100000\<rparr>"

definition vlan_devices :: "device list" where
  "vlan_devices =
     [\<lparr>device_name = ''S1'', device_type = Val ''switch'', interfaces = Val [],
       vlans = Val [\<lparr>vlan_id = Val 10, vlan_name = Val ''users''\<rparr>]\<rparr>,
      plain_device ''PC1'' ''endpoint'' [access_interface ''e0'' 10],
      plain_device ''PC2'' ''endpoint'' [access_interface ''e0'' 10]]"

section \<open>Binary64 rounding stays within integer bounds\<close>

lemma bit_length_bounds:
  "0 < n \<Longrightarrow> 2 ^ (bit_length n - 1) \<le> n \<and> n < 2 ^ bit_length n"
proof (induction n rule: bit_length.induct)
  case (1 n)
  show ?case
  proof (cases "n div 2 \<le> 0")
    case True
    with "1.prems" have "n = 1" by linarith
    then show ?thesis by (simp add: bit_length.simps)
  next
    case False
    then have pos: "0 < n div 2" by simp
    from "1.prems" have n0: "\<not> n \<le> 0" by simp
    from "1.IH" [OF n0 pos]
    have lo: "2 ^ (bit_length (n div 2) - 1) \<le> n div 2"
      and hi: "n div 2 < 2 ^ bit_length (n div 2)" by simp_all
    have bl: "bit_length n = Suc (bit_length (n div 2))"
      using n0 by (subst bit_length.simps) simp
    have blpos: "0 < bit_length (n div 2)"
      using False by (subst bit_length.simps) simp
    then obtain m where m: "bit_length (n div 2) = Suc m" by (cases "bit_length (n div 2)") auto
    from lo m have "2 * 2 ^ m \<le> 2 * (n div 2)" by simp
    also have "\<dots> \<le> n" by presburger
    finally have A: "2 ^ (bit_length n - 1) \<le> n" using bl m by simp
    from hi have "n div 2 + 1 \<le> 2 ^ bit_length (n div 2)" by simp
    then have "2 * (n div 2) + 2 \<le> 2 * 2 ^ bit_length (n div 2)" by simp
    moreover have "n < 2 * (n div 2) + 2" by presburger
    ultimately have B: "n < 2 ^ bit_length n" using bl by simp
    from A B show ?thesis by simp
  qed
qed

lemma round_half_even_le: "x \<le> of_int N \<Longrightarrow> round_half_even x \<le> N"
proof -
  assume le: "x \<le> of_int N"
  then have f: "\<lfloor>x\<rfloor> \<le> N" by (simp add: floor_le_iff)
  show ?thesis
  proof (cases "\<lfloor>x\<rfloor> = N")
    case True
    then have "x - of_int \<lfloor>x\<rfloor> \<le> 0" using le by simp
    then have "x - of_int \<lfloor>x\<rfloor> < 1 / 2" by linarith
    then show ?thesis using True by (simp add: round_half_even_def Let_def)
  next
    case False
    with f have "\<lfloor>x\<rfloor> + 1 \<le> N" by simp
    then show ?thesis by (simp add: round_half_even_def Let_def)
  qed
qed

lemma round_half_even_nonneg: "0 \<le> x \<Longrightarrow> 0 \<le> round_half_even x"
proof -
  assume "0 \<le> x"
  then have "0 \<le> \<lfloor>x\<rfloor>" by simp
  then show ?thesis by (simp add: round_half_even_def Let_def)
qed

lemma float_exponent_nonpos:
  assumes "0 < x" and "x < 2 ^ 53"
  shows "float_exponent x \<le> 0"
proof -
  obtain a b where q: "quotient_of x = (a, b)" by (cases "quotient_of x")
  then have b: "0 < b" and x: "x = of_int a / of_int b"
    by (simp_all add: quotient_of_denom_pos quotient_of_div)
  have a: "0 < a"
  proof -
    from assms(1) have "0 < rat_of_int a / rat_of_int b" by (simp only: x [symmetric])
    with b show ?thesis by (simp add: zero_less_divide_iff)
  qed
  define la where "la = bit_length a"
  define lb where "lb = bit_length b"
  define k where "k = int la - int lb"
  have k53: "k \<le> 53"
  proof -
    from bit_length_bounds [OF a] have lo: "(2::int) ^ (la - 1) \<le> a" by (simp add: la_def)
    from bit_length_bounds [OF b] have hi: "b < (2::int) ^ lb" by (simp add: lb_def)
    from assms(2) have "rat_of_int a / rat_of_int b < 2 ^ 53" by (simp only: x [symmetric])
    with b have "of_int a < (2::rat) ^ 53 * of_int b"
      by (simp add: divide_less_eq)
    then have "rat_of_int a < rat_of_int (2 ^ 53 * b)" by simp
    then have "a < 2 ^ 53 * b" by (simp only: of_int_less_iff)
    also have "\<dots> < 2 ^ 53 * 2 ^ lb" using hi by simp
    finally have "a < (2::int) ^ (53 + lb)" by (simp add: power_add)
    with lo have "(2::int) ^ (la - 1) < 2 ^ (53 + lb)" by linarith
    then have "la - 1 < 53 + lb" by simp
    then show ?thesis by (simp add: k_def)
  qed
  have lg: "(if 2 powi k \<le> x then k else k - 1) \<le> 52"
  proof (cases "2 powi k \<le> x")
    case True
    have "k < 53"
    proof (rule ccontr)
      assume "\<not> k < 53"
      then have "53 \<le> k" by simp
      then have "(2::rat) powi 53 \<le> 2 powi k" by (intro power_int_increasing) simp_all
      with True assms(2) show False by simp
    qed
    with True show ?thesis by simp
  next
    case False
    with k53 show ?thesis by simp
  qed
  show ?thesis
    using lg q unfolding float_exponent_def Let_def la_def lb_def k_def by simp
qed

lemma fl64_pos_nonneg: "0 \<le> x \<Longrightarrow> 0 \<le> fl64_pos x"
  by (simp add: fl64_pos_def Let_def round_half_even_nonneg)

lemma fl64_nonneg: "0 \<le> x \<Longrightarrow> 0 \<le> fl64 x"
  by (simp add: fl64_def fl64_pos_nonneg)

lemma fl64_le_nat:
  assumes "0 \<le> x" and "x \<le> of_nat n" and "n < 2 ^ 53"
  shows "fl64 x \<le> of_nat n"
proof (cases "x = 0")
  case True
  then show ?thesis by (simp add: fl64_def fl64_pos_def)
next
  case False
  with assms(1) have pos: "0 < x" by simp
  have "x < 2 ^ 53"
  proof -
    from assms(3) have "(of_nat n :: rat) < of_nat (2 ^ 53)" by (simp only: of_nat_less_iff)
    with assms(2) show ?thesis by simp
  qed
  with pos have e: "float_exponent x \<le> 0" by (rule float_exponent_nonpos)
  define m where "m = nat (- float_exponent x)"
  have pw: "(2::rat) powi float_exponent x = 1 / 2 ^ m"
    using e by (simp add: m_def power_int_def field_simps)
  have "x / 2 powi float_exponent x = x * 2 ^ m" by (simp add: pw)
  also have "\<dots> \<le> of_nat n * 2 ^ m" using assms(2) by simp
  also have "\<dots> = of_int (int n * 2 ^ m)" by simp
  finally have "round_half_even (x / 2 powi float_exponent x) \<le> int n * 2 ^ m"
    by (rule round_half_even_le)
  then have "(of_int (round_half_even (x / 2 powi float_exponent x)) :: rat) \<le> of_int (int n * 2 ^ m)"
    by (simp only: of_int_le_iff)
  then have "of_int (round_half_even (x / 2 powi float_exponent x)) / 2 ^ m \<le> (of_nat n :: rat)"
    by (simp add: divide_le_eq)
  then have "of_int (round_half_even (x / 2 powi float_exponent x)) * 2 powi float_exponent x
      \<le> (of_nat n :: rat)"
    by (simp only: pw times_divide_eq_right mult_1_right)
  moreover have "fl64 x = of_int (round_half_even (x / 2 powi float_exponent x)) * 2 powi float_exponent x"
    using pos by (simp add: fl64_def fl64_pos_def Let_def)
  ultimately show ?thesis by simp
qed

section \<open>The validator engine\<close>

lemma run_rule_passed:
  "passed_checks (run_rule t tr vr r) =
     passed_checks vr + count_status ''pass'' [invoke_rule (fst r) (snd r) t tr]"
  by (simp add: run_rule_def tally_def count_status_def Let_def split: sum.splits)

lemma run_rule_failed:
  "failed_checks (run_rule t tr vr r) =
     failed_checks vr + count_status ''fail'' [invoke_rule (fst r) (snd r) t tr]"
  by (simp add: run_rule_def tally_def count_status_def Let_def split: sum.splits)

lemma run_rule_warnings:
  "warnings (run_rule t tr vr r) =
     warnings vr + count_status ''warning'' [invoke_rule (fst r) (snd r) t tr]"
  by (simp add: run_rule_def tally_def count_status_def Let_def split: sum.splits)

lemma run_rule_score: "overall_score (run_rule t tr vr r) = overall_score vr"
  by (simp add: run_rule_def tally_def Let_def split: sum.splits)

lemma run_rule_detailed:
  "detailed_results (run_rule t tr vr r) =
     dict_set (detailed_results vr) (fst r) (detail_of (invoke_rule (fst r) (snd r) t tr))"
  by (simp add: run_rule_def tally_def detail_of_def Let_def split: sum.splits)

lemma run_rule_critical:
  "critical_issues (run_rule t tr vr r) =
     critical_issues vr @ issues_with_status ''fail'' [invoke_rule (fst r) (snd r) t tr]"
  by (simp add: run_rule_def tally_def issues_with_status_def Let_def split: sum.splits)

lemma run_rule_warnings_list:
  "warnings_list (run_rule t tr vr r) =
     warnings_list vr @ issues_with_status ''warning'' [invoke_rule (fst r) (snd r) t tr]"
  by (simp add: run_rule_def tally_def issues_with_status_def Let_def split: sum.splits)

lemma run_rule_suggestions:
  "optimization_suggestions (run_rule t tr vr r) =
     optimization_suggestions vr @ all_suggestions [invoke_rule (fst r) (snd r) t tr]"
  by (simp add: run_rule_def tally_def all_suggestions_def Let_def split: sum.splits)

lemma outcomes_Cons:
  "outcomes (r # rules) t tr = invoke_rule (fst r) (snd r) t tr # outcomes rules t tr"
  by (simp add: outcomes_def)

lemma foldl_run_rule_passed:
  "passed_checks (foldl (run_rule t tr) vr rules) =
     passed_checks vr + count_status ''pass'' (outcomes rules t tr)"
proof (induction rules arbitrary: vr)
  case Nil
  show ?case by (simp add: outcomes_def count_status_def)
next
  case (Cons r rules)
  show ?case
    by (simp add: Cons.IH run_rule_passed outcomes_Cons count_status_def)
qed

lemma foldl_run_rule_failed:
  "failed_checks (foldl (run_rule t tr) vr rules) =
     failed_checks vr + count_status ''fail'' (outcomes rules t tr)"
proof (induction rules arbitrary: vr)
  case Nil
  show ?case by (simp add: outcomes_def count_status_def)
next
  case (Cons r rules)
  show ?case
    by (simp add: Cons.IH run_rule_failed outcomes_Cons count_status_def)
qed

lemma foldl_run_rule_warnings:
  "warnings (foldl (run_rule t tr) vr rules) =
     warnings vr + count_status ''warning'' (outcomes rules t tr)"
proof (induction rules arbitrary: vr)
  case Nil
  show ?case by (simp add: outcomes_def count_status_def)
next
  case (Cons r rules)
  show ?case
    by (simp add: Cons.IH run_rule_warnings outcomes_Cons count_status_def)
qed

lemma foldl_run_rule_critical:
  "critical_issues (foldl (run_rule t tr) vr rules) =
     critical_issues vr @ issues_with_status ''fail'' (outcomes rules t tr)"
proof (induction rules arbitrary: vr)
  case Nil
  show ?case by (simp add: outcomes_def issues_with_status_def)
next
  case (Cons r rules)
  show ?case
    by (simp add: Cons.IH run_rule_critical outcomes_Cons issues_with_status_def)
qed

lemma foldl_run_rule_warnings_list:
  "warnings_list (foldl (run_rule t tr) vr rules) =
     warnings_list vr @ issues_with_status ''warning'' (outcomes rules t tr)"
proof (induction rules arbitrary: vr)
  case Nil
  show ?case by (simp add: outcomes_def issues_with_status_def)
next
  case (Cons r rules)
  show ?case
    by (simp add: Cons.IH run_rule_warnings_list outcomes_Cons issues_with_status_def)
qed

lemma foldl_run_rule_suggestions:
  "optimization_suggestions (foldl (run_rule t tr) vr rules) =
     optimization_suggestions vr @ all_suggestions (outcomes rules t tr)"
proof (induction rules arbitrary: vr)
  case Nil
  show ?case by (simp add: outcomes_def all_suggestions_def)
next
  case (Cons r rules)
  show ?case
    by (simp add: Cons.IH run_rule_suggestions outcomes_Cons all_suggestions_def)
qed

lemma foldl_run_rule_score:
  "overall_score (foldl (run_rule t tr) vr rules) = overall_score vr"
  by (induction rules arbitrary: vr) (simp_all add: run_rule_score)

lemma dict_set_fresh: "k \<notin> set (map fst d) \<Longrightarrow> dict_set d k v = d @ [(k, v)]"
  by (induction d) auto

lemma foldl_run_rule_detailed:
  "distinct (map fst rules) \<Longrightarrow> set (map fst rules) \<inter> set (map fst (detailed_results vr)) = {} \<Longrightarrow>
   detailed_results (foldl (run_rule t tr) vr rules) =
     detailed_results vr @ map (\<lambda>r. (fst r, detail_of (invoke_rule (fst r) (snd r) t tr))) rules"
proof (induction rules arbitrary: vr)
  case Nil
  show ?case by simp
next
  case (Cons r rules)
  from Cons.prems have fresh: "fst r \<notin> set (map fst (detailed_results vr))" by auto
  have step: "detailed_results (run_rule t tr vr r) =
      detailed_results vr @ [(fst r, detail_of (invoke_rule (fst r) (snd r) t tr))]"
    by (simp only: run_rule_detailed dict_set_fresh [OF fresh])
  have d: "distinct (map fst rules)" using Cons.prems by simp
  have disj: "set (map fst rules) \<inter> set (map fst (detailed_results (run_rule t tr vr r))) = {}"
    using Cons.prems by (auto simp: step)
  show ?case using Cons.IH [OF d disj] by (simp add: step)
qed

lemma calculate_overall_score_fields:
  "passed_checks (calculate_overall_score vr) = passed_checks vr"
  "failed_checks (calculate_overall_score vr) = failed_checks vr"
  "warnings (calculate_overall_score vr) = warnings vr"
  "detailed_results (calculate_overall_score vr) = detailed_results vr"
  "critical_issues (calculate_overall_score vr) = critical_issues vr"
  "warnings_list (calculate_overall_score vr) = warnings_list vr"
  "optimization_suggestions (calculate_overall_score vr) = optimization_suggestions vr"
  by (simp_all add: calculate_overall_score_def Let_def)

lemma calculate_overall_score_value:
  "overall_score (calculate_overall_score vr) =
     (if 0 < passed_checks vr + failed_checks vr + warnings vr
      then score_formula (passed_checks vr) (warnings vr)
             (passed_checks vr + failed_checks vr + warnings vr)
      else overall_score vr)"
  by (simp add: calculate_overall_score_def Let_def score_formula_def py_float_mul_def py_truediv_def)

lemma validate_passed:
  "passed_checks (validate_network_configuration rules t tr) = count_status ''pass'' (outcomes rules t tr)"
  by (simp add: validate_network_configuration_def calculate_overall_score_fields
      foldl_run_rule_passed initial_results_def)

lemma validate_failed:
  "failed_checks (validate_network_configuration rules t tr) = count_status ''fail'' (outcomes rules t tr)"
  by (simp add: validate_network_configuration_def calculate_overall_score_fields
      foldl_run_rule_failed initial_results_def)

lemma validate_warnings:
  "warnings (validate_network_configuration rules t tr) = count_status ''warning'' (outcomes rules t tr)"
  by (simp add: validate_network_configuration_def calculate_overall_score_fields
      foldl_run_rule_warnings initial_results_def)

lemma validate_critical:
  "critical_issues (validate_network_configuration rules t tr) =
     issues_with_status ''fail'' (outcomes rules t tr)"
  by (simp add: validate_network_configuration_def calculate_overall_score_fields
      foldl_run_rule_critical initial_results_def)

lemma validate_warnings_list:
  "warnings_list (validate_network_configuration rules t tr) =
     issues_with_status ''warning'' (outcomes rules t tr)"
  by (simp add: validate_network_configuration_def calculate_overall_score_fields
      foldl_run_rule_warnings_list initial_results_def)

lemma validate_suggestions:
  "optimization_suggestions (validate_network_configuration rules t tr) =
     all_suggestions (outcomes rules t tr)"
  by (simp add: validate_network_configuration_def calculate_overall_score_fields
      foldl_run_rule_suggestions initial_results_def)

lemma validate_score:
  "overall_score (validate_network_configuration rules t tr) =
     (if 0 < evaluated_checks (outcomes rules t tr)
      then score_formula (count_status ''pass'' (outcomes rules t tr))
             (count_status ''warning'' (outcomes rules t tr))
             (evaluated_checks (outcomes rules t tr))
      else 0)"
  unfolding validate_network_configuration_def calculate_overall_score_value
    foldl_run_rule_passed foldl_run_rule_failed foldl_run_rule_warnings foldl_run_rule_score
    evaluated_checks_def
  by (simp add: initial_results_def)

lemma validate_detailed:
  "distinct (map fst rules) \<Longrightarrow>
   detailed_results (validate_network_configuration rules t tr) =
     map (\<lambda>r. (fst r, detail_of (invoke_rule (fst r) (snd r) t tr))) rules"
  unfolding validate_network_configuration_def calculate_overall_score_fields
  by (subst foldl_run_rule_detailed) (simp_all add: initial_results_def)

lemma map_of_keyed:
  "distinct (map fst xs) \<Longrightarrow> x \<in> set xs \<Longrightarrow> map_of (map (\<lambda>r. (fst r, g r)) xs) (fst x) = Some (g x)"
proof (induction xs)
  case Nil
  then show ?case by simp
next
  case (Cons y ys)
  show ?case
  proof (cases "x = y")
    case True
    then show ?thesis by simp
  next
    case False
    with Cons.prems have x: "x \<in> set ys" by simp
    then have "fst x \<in> set (map fst ys)" by simp
    moreover have "fst y \<notin> set (map fst ys)" using Cons.prems(1) by simp
    ultimately have "fst x \<noteq> fst y" by metis
    with Cons.IH Cons.prems x show ?thesis by simp
  qed
qed

lemma fl64_seven_tenths: "fl64 (fl64 (7 / 10) * 100) = 70"
  by code_simp

lemma score_formula_6_2_2: "score_formula 6 2 (6 + 2 + 2) = 70"
proof -
  have "score_formula 6 2 (6 + 2 + 2) = fl64 (fl64 (7 / 10) * 100)"
    by (simp add: score_formula_def)
  then show ?thesis by (simp only: fl64_seven_tenths)
qed

lemma score_formula_bounds:
  assumes "p + w \<le> e" and "0 < e"
  shows "0 \<le> score_formula p w e \<and> score_formula p w e \<le> 100"
proof -
  define q :: rat where "q = of_nat (p * 100 + w * 50) / of_nat (e * 100)"
  have q0: "0 \<le> q" by (simp add: q_def)
  have "p * 100 + w * 50 \<le> e * 100" using assms(1) by simp
  then have "(of_nat (p * 100 + w * 50) :: rat) \<le> of_nat (e * 100)" by (simp only: of_nat_le_iff)
  moreover have "(0::rat) < of_nat (e * 100)" using assms(2) by simp
  ultimately have q1: "q \<le> of_nat 1" by (simp add: q_def divide_le_eq)
  have f0: "0 \<le> fl64 q" using q0 by (rule fl64_nonneg)
  have f1: "fl64 q \<le> of_nat 1" using q0 q1 by (rule fl64_le_nat) simp
  have g0: "0 \<le> fl64 q * 100" using f0 by simp
  have g1: "fl64 q * 100 \<le> of_nat 100" using f1 by simp
  have "0 \<le> fl64 (fl64 q * 100)" using g0 by (rule fl64_nonneg)
  moreover have "fl64 (fl64 q * 100) \<le> of_nat 100" using g0 g1 by (rule fl64_le_nat) simp
  ultimately show ?thesis by (simp add: score_formula_def q_def)
qed


text \<open>
  C1. The counts of the report are the numbers of rules that returned pass, fail and
  warning; a rule that raised is counted nowhere. When at least one rule returned one of
  the three, the score is the formula of the specification over these counts, evaluated
  in binary64 arithmetic as Python does; on 6 passed, 2 warnings and 2 failed it is
  exactly 70.
\<close>

theorem overall_score_formula:
  "passed_checks (validate_network_configuration rules t traffic) =
     count_status ''pass'' (outcomes rules t traffic) \<and>
   failed_checks (validate_network_configuration rules t traffic) =
     count_status ''fail'' (outcomes rules t traffic) \<and>
   warnings (validate_network_configuration rules t traffic) =
     count_status ''warning'' (outcomes rules t traffic) \<and>
   (0 < evaluated_checks (outcomes rules t traffic) \<longrightarrow>
      overall_score (validate_network_configuration rules t traffic) =
        score_formula (count_status ''pass'' (outcomes rules t traffic))
          (count_status ''warning'' (outcomes rules t traffic))
          (evaluated_checks (outcomes rules t traffic))) \<and>
   score_formula 6 2 (6 + 2 + 2) = 70"
proof (intro conjI impI)
  show "passed_checks (validate_network_configuration rules t traffic) =
      count_status ''pass'' (outcomes rules t traffic)"
    by (rule validate_passed)
  show "failed_checks (validate_network_configuration rules t traffic) =
      count_status ''fail'' (outcomes rules t traffic)"
    by (rule validate_failed)
  show "warnings (validate_network_configuration rules t traffic) =
      count_status ''warning'' (outcomes rules t traffic)"
    by (rule validate_warnings)
  show "score_formula 6 2 (6 + 2 + 2) = 70"
    by (rule score_formula_6_2_2)
next
  assume "0 < evaluated_checks (outcomes rules t traffic)"
  then show "overall_score (validate_network_configuration rules t traffic) =
      score_formula (count_status ''pass'' (outcomes rules t traffic))
        (count_status ''warning'' (outcomes rules t traffic))
        (evaluated_checks (outcomes rules t traffic))"
    by (simp only: validate_score if_True)
qed

lemma chain_counts:
  "count_status ''pass'' (outcomes modelled_rules chain_topology None) = 2"
  "count_status ''warning'' (outcomes modelled_rules chain_topology None) = 2"
  "evaluated_checks (outcomes modelled_rules chain_topology None) = 4"
  by code_simp+

lemma score_formula_2_2_4: "score_formula 2 2 4 = 75"
  by code_simp

theorem overall_score_formula_witness:
  "0 < evaluated_checks (outcomes modelled_rules chain_topology None) \<and>
   overall_score (validate_network_configuration modelled_rules chain_topology None) = 75"
  using overall_score_formula [of modelled_rules chain_topology None]
  by (simp add: chain_counts score_formula_2_2_4)

text \<open>
  C4. With the rule names distinct (they are the keys of a dict), the report holds one
  entry for every rule of the table, in the order of the table: the rule's own result
  when it returned one, and an entry of status error when it raised. An exception in one
  rule changes no other entry, and the lists of issues and suggestions are those of the
  rules that returned.
\<close>

theorem rule_exceptions_isolated:
  assumes "distinct (map fst rules)"
  shows
  "detailed_results (validate_network_configuration rules t traffic) =
     map (\<lambda>r. (fst r, detail_of (invoke_rule (fst r) (snd r) t traffic))) rules \<and>
   (\<forall>r \<in> set rules. \<forall>e. invoke_rule (fst r) (snd r) t traffic = Inl e \<longrightarrow>
      map_of (detailed_results (validate_network_configuration rules t traffic)) (fst r) =
        Some (RuleError e) \<and> detailed_status (RuleError e) = ''error'') \<and>
   (\<forall>r \<in> set rules. \<forall>res. invoke_rule (fst r) (snd r) t traffic = Inr res \<longrightarrow>
      map_of (detailed_results (validate_network_configuration rules t traffic)) (fst r) =
        Some (RuleResult res)) \<and>
   critical_issues (validate_network_configuration rules t traffic) =
     issues_with_status ''fail'' (outcomes rules t traffic) \<and>
   warnings_list (validate_network_configuration rules t traffic) =
     issues_with_status ''warning'' (outcomes rules t traffic) \<and>
   optimization_suggestions (validate_network_configuration rules t traffic) =
     all_suggestions (outcomes rules t traffic)"
proof -
  let ?R = "validate_network_configuration rules t traffic"
  have det: "detailed_results ?R =
      map (\<lambda>r. (fst r, detail_of (invoke_rule (fst r) (snd r) t traffic))) rules"
    using assms by (rule validate_detailed)
  have look: "map_of (detailed_results ?R) (fst r) =
      Some (detail_of (invoke_rule (fst r) (snd r) t traffic))" if "r \<in> set rules" for r
    unfolding det using assms that by (rule map_of_keyed)
  have err: "\<forall>r \<in> set rules. \<forall>e. invoke_rule (fst r) (snd r) t traffic = Inl e \<longrightarrow>
      map_of (detailed_results ?R) (fst r) = Some (RuleError e) \<and>
      detailed_status (RuleError e) = ''error''"
    by (simp add: look detail_of_def)
  have res: "\<forall>r \<in> set rules. \<forall>res. invoke_rule (fst r) (snd r) t traffic = Inr res \<longrightarrow>
      map_of (detailed_results ?R) (fst r) = Some (RuleResult res)"
    by (simp add: look detail_of_def)
  from det err res show ?thesis
    by (simp only: validate_critical validate_warnings_list validate_suggestions simp_thms)
qed

theorem rule_exceptions_isolated_witness:
  "distinct (map fst modelled_rules) \<and>
   invoke_rule ''capacity_validation'' (Rule2 check_capacity_adequacy) chain_topology None =
     Inl TypeError \<and>
   map_of (detailed_results (validate_network_configuration modelled_rules chain_topology None))
     ''capacity_validation'' = Some (RuleError TypeError) \<and>
   map fst (detailed_results (validate_network_configuration modelled_rules chain_topology None)) =
     [''ip_conflicts'', ''network_loops'', ''missing_components'', ''redundancy_analysis'',
      ''capacity_validation'']"
proof -
  have d: "distinct (map fst modelled_rules)"
    by (simp add: modelled_rules_def)
  have mem: "(''capacity_validation'', Rule2 check_capacity_adequacy) \<in> set modelled_rules"
    by (simp add: modelled_rules_def)
  have inv: "invoke_rule ''capacity_validation'' (Rule2 check_capacity_adequacy) chain_topology None =
      Inl TypeError"
    by simp
  note T = rule_exceptions_isolated [OF d, of chain_topology None]
  from T have "\<forall>r \<in> set modelled_rules. \<forall>e. invoke_rule (fst r) (snd r) chain_topology None = Inl e \<longrightarrow>
      map_of (detailed_results (validate_network_configuration modelled_rules chain_topology None)) (fst r) =
        Some (RuleError e) \<and> detailed_status (RuleError e) = ''error''"
    by (rule conjunct1 [OF conjunct2])
  from bspec [OF this mem] inv
  have look: "map_of (detailed_results (validate_network_configuration modelled_rules chain_topology None))
      ''capacity_validation'' = Some (RuleError TypeError)"
    by simp
  from T have "detailed_results (validate_network_configuration modelled_rules chain_topology None) =
      map (\<lambda>r. (fst r, detail_of (invoke_rule (fst r) (snd r) chain_topology None))) modelled_rules"
    by (rule conjunct1)
  then have "map fst (detailed_results (validate_network_configuration modelled_rules chain_topology None)) =
      map fst modelled_rules"
    by (simp add: comp_def)
  then have keys: "map fst (detailed_results (validate_network_configuration modelled_rules chain_topology None)) =
     [''ip_conflicts'', ''network_loops'', ''missing_components'', ''redundancy_analysis'',
      ''capacity_validation'']"
    by (simp add: modelled_rules_def)
  from d inv look keys show ?thesis by (intro conjI)
qed

text \<open>
  C10. The score of every report lies between 0 and 100, and it is 0 when no rule
  returned pass, fail or warning, as when every rule raises.
\<close>

theorem overall_score_range:
  "0 \<le> overall_score (validate_network_configuration rules t traffic) \<and>
   overall_score (validate_network_configuration rules t traffic) \<le> 100 \<and>
   (evaluated_checks (outcomes rules t traffic) = 0 \<longrightarrow>
      overall_score (validate_network_configuration rules t traffic) = 0)"
proof (cases "0 < evaluated_checks (outcomes rules t traffic)")
  case True
  have "count_status ''pass'' (outcomes rules t traffic) +
      count_status ''warning'' (outcomes rules t traffic) \<le>
      evaluated_checks (outcomes rules t traffic)"
    by (simp add: evaluated_checks_def)
  from score_formula_bounds [OF this True] True show ?thesis
    by (simp add: validate_score)
next
  case False
  then show ?thesis by (simp add: validate_score)
qed

lemma broken_counts: "evaluated_checks (outcomes modelled_rules broken_topology None) = 0"
  by code_simp

theorem overall_score_range_witness:
  "evaluated_checks (outcomes modelled_rules broken_topology None) = 0 \<and>
   overall_score (validate_network_configuration modelled_rules broken_topology None) = 0"
  using overall_score_range [of modelled_rules broken_topology None]
  by (simp add: broken_counts)

section \<open>Loops that may raise\<close>

lemma map_exn_elems:
  "map_exn f xs = Inr ys \<Longrightarrow> y \<in> set ys \<Longrightarrow> \<exists>x \<in> set xs. f x = Inr y"
proof (induction xs arbitrary: ys)
  case Nil
  then show ?case by simp
next
  case (Cons x xs)
  then show ?case by (auto split: sum.splits)
qed

lemma map_exn_total:
  "(\<And>x. x \<in> set xs \<Longrightarrow> f x = Inr (g x)) \<Longrightarrow> map_exn f xs = Inr (map g xs)"
  by (induction xs) simp_all

lemma fold_exn_total:
  "(\<And>x s. x \<in> set xs \<Longrightarrow> f s x = Inr (g s x)) \<Longrightarrow> fold_exn f xs s = Inr (foldl g s xs)"
  by (induction xs arbitrary: s) simp_all

section \<open>The loop rule\<close>

lemma stp_issue_shape:
  "stp_issue f d = Inr found \<Longrightarrow> i \<in> set found \<Longrightarrow> \<not> is_loop_issue i"
  by (auto simp: stp_issue_def split: sum.splits if_splits)

lemma stp_issues_shape:
  assumes "map_exn (stp_issue f) ds = Inr stp" and "i \<in> set (concat stp)"
  shows "\<not> is_loop_issue i"
proof -
  from assms(2) obtain found where "found \<in> set stp" and i: "i \<in> set found" by auto
  with assms(1) obtain d where "stp_issue f d = Inr found" by (blast dest: map_exn_elems)
  with i show ?thesis by (rule stp_issue_shape [rotated])
qed

lemma filter_loop_issues:
  assumes "map_exn (stp_issue f) ds = Inr stp"
  shows "filter is_loop_issue (map loop_issue cs @ concat stp) = map loop_issue cs"
proof -
  have "filter is_loop_issue (concat stp) = []"
    using stp_issues_shape [OF assms] by (simp add: filter_empty_conv)
  moreover have "filter is_loop_issue (map loop_issue cs) = map loop_issue cs"
    by (induction cs) (simp_all add: loop_issue_def)
  ultimately show ?thesis by simp
qed

text \<open>
  C8. Whatever the enumeration of cycles returns for the directed graph of the routers
  and switches, the loop issues of the rule are the cycles of more than two devices, in
  the order of the enumeration: no loop issue lists two devices or fewer, and the length
  an issue reports is the number of devices it lists.
\<close>

theorem loop_issues_longer_than_two:
  assumes "check_network_loops simple_cycles device_str_lower t = Inr r"
  shows
  "(\<forall>i \<in> set (issues r). \<forall>cycle n s rc. i = LoopIssue cycle n s rc \<longrightarrow>
      2 < length cycle \<and> n = length cycle) \<and>
   (\<forall>g cycles. infrastructure_graph t = Inr g \<and> simple_cycles (to_directed g) = Inr cycles \<longrightarrow>
      filter is_loop_issue (issues r) =
        map loop_issue (filter (\<lambda>cycle. 2 < length cycle) cycles))"
proof -
  from assms obtain g stp where g: "infrastructure_graph t = Inr g"
    and stp: "map_exn (stp_issue device_str_lower) (devices t) = Inr stp"
    and r: "issues r =
      (case simple_cycles (to_directed g) of
         Inl e \<Rightarrow> []
       | Inr cycles \<Rightarrow> map loop_issue (filter (\<lambda>cycle. 2 < length cycle) cycles)) @ concat stp"
    by (auto simp: check_network_loops_def Let_def split: sum.splits)
  define cs where "cs = (case simple_cycles (to_directed g) of
         Inl e \<Rightarrow> []
       | Inr cycles \<Rightarrow> filter (\<lambda>cycle. 2 < length cycle) cycles)"
  have r': "issues r = map loop_issue cs @ concat stp"
    unfolding r cs_def by (simp split: sum.splits)
  have long: "\<forall>c \<in> set cs. 2 < length c"
    unfolding cs_def by (auto split: sum.splits)
  have first: "\<forall>i \<in> set (issues r). \<forall>cycle n s rc. i = LoopIssue cycle n s rc \<longrightarrow>
      2 < length cycle \<and> n = length cycle"
  proof (intro ballI allI impI)
    fix i cycle n s rc
    assume i: "i \<in> set (issues r)" and eq: "i = LoopIssue cycle n s rc"
    from eq have loop: "is_loop_issue i" by simp
    from i r' have "i \<in> set (map loop_issue cs) \<or> i \<in> set (concat stp)" by auto
    with loop stp_issues_shape [OF stp] have "i \<in> set (map loop_issue cs)" by blast
    then obtain c where c: "c \<in> set cs" and "i = loop_issue c" by auto
    with eq have "cycle = c" and "n = length c" by (auto simp: loop_issue_def)
    with c long show "2 < length cycle \<and> n = length cycle" by simp
  qed
  have second: "\<forall>g' cycles. infrastructure_graph t = Inr g' \<and> simple_cycles (to_directed g') = Inr cycles \<longrightarrow>
      filter is_loop_issue (issues r) =
        map loop_issue (filter (\<lambda>cycle. 2 < length cycle) cycles)"
  proof (intro allI impI)
    fix g' cycles
    assume a: "infrastructure_graph t = Inr g' \<and> simple_cycles (to_directed g') = Inr cycles"
    with g have "g' = g" by simp
    with a have "cs = filter (\<lambda>cycle. 2 < length cycle) cycles" by (simp add: cs_def)
    then show "filter is_loop_issue (issues r) =
        map loop_issue (filter (\<lambda>cycle. 2 < length cycle) cycles)"
      by (simp only: r' filter_loop_issues [OF stp])
  qed
  from first second show ?thesis by (rule conjI)
qed

lemma ring_cycles:
  "infrastructure_graph ring_topology =
     Inr ([''R1'', ''R2'', ''R3''], [(''R1'', ''R2''), (''R2'', ''R3''), (''R1'', ''R3'')])"
  "elementary_cycles
     (to_directed ([''R1'', ''R2'', ''R3''], [(''R1'', ''R2''), (''R2'', ''R3''), (''R1'', ''R3'')])) =
     Inr [[''R1'', ''R2''], [''R1'', ''R2'', ''R3''], [''R1'', ''R3''], [''R1'', ''R3'', ''R2''],
          [''R2'', ''R3'']]"
  by code_simp+

lemma ring_loops:
  "check_network_loops elementary_cycles (\<lambda>d. []) ring_topology =
     Inr \<lparr>status = ''warning'',
          issues = [loop_issue [''R1'', ''R2'', ''R3''], loop_issue [''R1'', ''R3'', ''R2'']],
          suggestions =
            [''Enable and configure spanning-tree protocol on all switches'',
             ''Consider implementing rapid spanning-tree (RSTP) for faster convergence'']\<rparr>"
  by code_simp

theorem loop_issues_longer_than_two_witness:
  "filter is_loop_issue
     (issues \<lparr>status = ''warning'',
          issues = [loop_issue [''R1'', ''R2'', ''R3''], loop_issue [''R1'', ''R3'', ''R2'']],
          suggestions =
            [''Enable and configure spanning-tree protocol on all switches'',
             ''Consider implementing rapid spanning-tree (RSTP) for faster convergence'']\<rparr>) =
   [LoopIssue [''R1'', ''R2'', ''R3''] 3 ''warning'' ''Verify spanning-tree protocol configuration'',
    LoopIssue [''R1'', ''R3'', ''R2''] 3 ''warning'' ''Verify spanning-tree protocol configuration'']"
  using loop_issues_longer_than_two [OF ring_loops] ring_cycles
  by (simp add: loop_issue_def)

section \<open>The IP-conflict rule\<close>

lemma foldl_concat_map:
  "foldl f a (concat (map h xs)) = foldl (\<lambda>s x. foldl f s (h x)) a xs"
  by (induction xs arbitrary: a) simp_all

lemma dict_append_keys_present:
  "k \<in> set (map fst d) \<Longrightarrow> map fst (dict_append d k v) = map fst d"
proof (induction d)
  case Nil
  then show ?case by simp
next
  case (Cons x d)
  obtain a b where x: "x = (a, b)" by (cases x)
  show ?case
  proof (cases "a = k")
    case True
    then show ?thesis by (simp add: x)
  next
    case False
    with Cons.prems x have "k \<in> set (map fst d)" by simp
    from Cons.IH [OF this] False show ?thesis by (simp add: x)
  qed
qed

lemma dict_append_keys_fresh:
  "k \<notin> set (map fst d) \<Longrightarrow> map fst (dict_append d k v) = map fst d @ [k]"
  by (induction d) auto

lemma dict_append_keys:
  "map fst (dict_append d k v) = (if k \<in> set (map fst d) then map fst d else map fst d @ [k])"
  by (simp add: dict_append_keys_present dict_append_keys_fresh)

lemma dict_append_distinct:
  "distinct (map fst d) \<Longrightarrow> distinct (map fst (dict_append d k v))"
  by (simp add: dict_append_keys)

lemma map_of_dict_append:
  "map_of (dict_append d k v) k' =
     (if k' = k then Some ((case map_of d k of None \<Rightarrow> [] | Some vs \<Rightarrow> vs) @ [v])
      else map_of d k')"
  by (induction d) auto

lemma foldl_dict_append_distinct:
  "distinct (map fst u) \<Longrightarrow>
   distinct (map fst (foldl (\<lambda>u e. dict_append u (fst e) (snd e)) u es))"
  by (induction es arbitrary: u) (simp_all add: dict_append_distinct)

lemma members_Cons:
  "members k (e # es) = (if fst e = k then snd e # members k es else members k es)"
  by (simp add: members_def)

lemma map_of_foldl_dict_append:
  "map_of (foldl (\<lambda>u e. dict_append u (fst e) (snd e)) u es) k =
     (if members k es = [] then map_of u k
      else Some ((case map_of u k of None \<Rightarrow> [] | Some vs \<Rightarrow> vs) @ members k es))"
proof (induction es arbitrary: u)
  case Nil
  show ?case by (simp add: members_def)
next
  case (Cons e es)
  show ?case
    by (simp add: Cons.IH map_of_dict_append members_Cons split: option.splits)
qed

lemma grouped_lookup:
  "map_of (foldl (\<lambda>u e. dict_append u (fst e) (snd e)) [] es) k =
     (if members k es = [] then None else Some (members k es))"
  by (simp add: map_of_foldl_dict_append)

lemma grouped_member:
  "(k, vs) \<in> set (foldl (\<lambda>u e. dict_append u (fst e) (snd e)) [] es) \<longleftrightarrow>
     vs = members k es \<and> vs \<noteq> []"
proof -
  have d: "distinct (map fst (foldl (\<lambda>u e. dict_append u (fst e) (snd e)) [] es))"
    by (rule foldl_dict_append_distinct) simp
  have "(k, vs) \<in> set (foldl (\<lambda>u e. dict_append u (fst e) (snd e)) [] es) \<longleftrightarrow>
      map_of (foldl (\<lambda>u e. dict_append u (fst e) (snd e)) [] es) k = Some vs"
    using d by simp
  then show ?thesis by (auto simp: grouped_lookup)
qed

lemma filter_key_distinct:
  "distinct (map fst xs) \<Longrightarrow> (k, v) \<in> set xs \<Longrightarrow> filter (\<lambda>g. fst g = k) xs = [(k, v)]"
proof (induction xs)
  case Nil
  then show ?case by simp
next
  case (Cons x xs)
  show ?case
  proof (cases "x = (k, v)")
    case True
    with Cons.prems(1) have "\<forall>g \<in> set xs. fst g \<noteq> k" by force
    then have "filter (\<lambda>g. fst g = k) xs = []" by (simp add: filter_empty_conv)
    with True show ?thesis by simp
  next
    case False
    with Cons.prems have in_xs: "(k, v) \<in> set xs" by simp
    then have "k \<in> set (map fst xs)" by force
    with Cons.prems(1) have "fst x \<noteq> k" by auto
    with Cons.IH Cons.prems(1) in_xs show ?thesis by simp
  qed
qed

lemma record_interface_ok:
  assumes "interface_entries dev_id i \<noteq> [] \<longrightarrow> name i \<noteq> Absent"
  shows "record_interface dev_id u i =
     Inr (foldl (\<lambda>u e. dict_append u (fst e) (snd e)) u (interface_entries dev_id i))"
  using assms
  by (cases "name i")
     (auto simp: record_interface_def interface_entries_def split: option.splits)

lemma interfaces_of_ok:
  "interfaces d \<noteq> Null \<Longrightarrow> interfaces_of d = Inr (interface_list d)"
  by (cases "interfaces d") (simp_all add: interfaces_of_def interface_list_def)

lemma record_device_ok:
  assumes "interfaces (snd d) \<noteq> Null"
    and "\<forall>i \<in> set (interface_list (snd d)). interface_entries (fst d) i \<noteq> [] \<longrightarrow> name i \<noteq> Absent"
  shows "record_device u d = Inr (foldl (\<lambda>u e. dict_append u (fst e) (snd e)) u (device_entries d))"
proof -
  have "fold_exn (record_interface (fst d)) (interface_list (snd d)) u =
      Inr (foldl (\<lambda>u i. foldl (\<lambda>u e. dict_append u (fst e) (snd e)) u (interface_entries (fst d) i))
             u (interface_list (snd d)))"
    using assms(2) by (intro fold_exn_total record_interface_ok) simp
  then show ?thesis
    by (simp add: record_device_def interfaces_of_ok [OF assms(1)] device_entries_def
        foldl_concat_map)
qed

lemma usage_ok:
  assumes "named_interfaces t"
  shows "fold_exn record_device (devices t) [] =
     Inr (foldl (\<lambda>u e. dict_append u (fst e) (snd e)) [] (address_entries t))"
proof -
  have "fold_exn record_device (devices t) [] =
      Inr (foldl (\<lambda>u d. foldl (\<lambda>u e. dict_append u (fst e) (snd e)) u (device_entries d))
             [] (devices t))"
    using assms by (intro fold_exn_total record_device_ok) (simp_all add: named_interfaces_def)
  then show ?thesis by (simp add: address_entries_def foldl_concat_map)
qed

text \<open>
  C5. On records whose addressed interfaces carry a name, the rule returns a result. A
  group is the list of the interfaces of all devices that share an address and a VLAN.
  Every group of more than one interface gets exactly one issue, which is critical and
  lists all members of the group; there are no other issues; the status is fail when
  some group has more than one member, and pass otherwise.
\<close>

theorem ip_conflict_groups:
  assumes "named_interfaces t"
  shows
  "\<exists>r. check_ip_conflicts t = Inr r \<and>
     (\<forall>k. 1 < length (members k (address_entries t)) \<longrightarrow>
        filter (\<lambda>i. conflict_key i = Some k) (issues r) =
          [IpConflictIssue (fst k) (snd k) (members k (address_entries t)) ''critical'']) \<and>
     (\<forall>i \<in> set (issues r). \<exists>k. 1 < length (members k (address_entries t)) \<and>
        i = IpConflictIssue (fst k) (snd k) (members k (address_entries t)) ''critical'') \<and>
     (status r = ''fail'' \<longleftrightarrow> (\<exists>k. 1 < length (members k (address_entries t)))) \<and>
     (status r = ''pass'' \<longleftrightarrow> \<not> (\<exists>k. 1 < length (members k (address_entries t))))"
proof -
  define usage where
    "usage = foldl (\<lambda>u e. dict_append u (fst e) (snd e)) [] (address_entries t)"
  define conflicts where "conflicts = map conflict_of (filter (\<lambda>g. 1 < length (snd g)) usage)"
  define r where "r = \<lparr>status = (if conflicts \<noteq> [] then ''fail'' else ''pass''),
      issues = conflicts, suggestions = map conflict_suggestion conflicts\<rparr>"
  have ret: "check_ip_conflicts t = Inr r"
    by (simp add: check_ip_conflicts_def usage_ok [OF assms] usage_def conflicts_def r_def Let_def)
  have d: "distinct (map fst usage)"
    unfolding usage_def by (rule foldl_dict_append_distinct) simp
  have mem: "(k, vs) \<in> set usage \<longleftrightarrow> vs = members k (address_entries t) \<and> vs \<noteq> []" for k vs
    unfolding usage_def by (rule grouped_member)
  have one: "filter (\<lambda>i. conflict_key i = Some k) conflicts =
      [IpConflictIssue (fst k) (snd k) (members k (address_entries t)) ''critical'']"
    if big: "1 < length (members k (address_entries t))" for k
  proof -
    from big have "members k (address_entries t) \<noteq> []" by auto
    then have "(k, members k (address_entries t)) \<in> set usage" by (simp add: mem)
    from filter_key_distinct [OF d this]
    have f: "filter (\<lambda>g. fst g = k) usage = [(k, members k (address_entries t))]" .
    have "filter (\<lambda>i. conflict_key i = Some k) conflicts =
        map conflict_of (filter (\<lambda>g. 1 < length (snd g)) (filter (\<lambda>g. fst g = k) usage))"
      unfolding conflicts_def
      by (simp add: filter_map comp_def conflict_of_def prod_eq_iff conj_commute)
    also have "\<dots> = [conflict_of (k, members k (address_entries t))]"
      using big by (simp add: f)
    finally show ?thesis by (simp add: conflict_of_def)
  qed
  have each: "\<exists>k. 1 < length (members k (address_entries t)) \<and>
      i = IpConflictIssue (fst k) (snd k) (members k (address_entries t)) ''critical''"
    if "i \<in> set conflicts" for i
  proof -
    from that obtain k vs where g: "(k, vs) \<in> set usage" and long: "1 < length vs"
      and i: "i = conflict_of (k, vs)"
      by (auto simp: conflicts_def)
    from g have "vs = members k (address_entries t)" by (simp add: mem)
    with long i show ?thesis by (auto simp: conflict_of_def)
  qed
  have some: "conflicts \<noteq> [] \<longleftrightarrow> (\<exists>k. 1 < length (members k (address_entries t)))"
  proof
    assume "conflicts \<noteq> []"
    then obtain i where "i \<in> set conflicts" by (cases conflicts) auto
    from each [OF this] show "\<exists>k. 1 < length (members k (address_entries t))" by blast
  next
    assume "\<exists>k. 1 < length (members k (address_entries t))"
    then obtain k where "1 < length (members k (address_entries t))" ..
    from one [OF this] show "conflicts \<noteq> []" by auto
  qed
  have "(\<forall>k. 1 < length (members k (address_entries t)) \<longrightarrow>
        filter (\<lambda>i. conflict_key i = Some k) (issues r) =
          [IpConflictIssue (fst k) (snd k) (members k (address_entries t)) ''critical'']) \<and>
     (\<forall>i \<in> set (issues r). \<exists>k. 1 < length (members k (address_entries t)) \<and>
        i = IpConflictIssue (fst k) (snd k) (members k (address_entries t)) ''critical'') \<and>
     (status r = ''fail'' \<longleftrightarrow> (\<exists>k. 1 < length (members k (address_entries t)))) \<and>
     (status r = ''pass'' \<longleftrightarrow> \<not> (\<exists>k. 1 < length (members k (address_entries t))))"
    using one each some by (simp add: r_def)
  with ret show ?thesis by blast
qed

lemma conflict_topology_facts:
  "named_interfaces conflict_topology"
  "members (''10.0.0.5'', VlanId 10) (address_entries conflict_topology) =
     [(''PC1'', Some ''e0'', VlanId 10), (''PC2'', Some ''e0'', VlanId 10)]"
  "check_ip_conflicts conflict_topology =
     Inr \<lparr>status = ''fail'',
          issues = [IpConflictIssue ''10.0.0.5'' (VlanId 10)
                      [(''PC1'', Some ''e0'', VlanId 10), (''PC2'', Some ''e0'', VlanId 10)]
                      ''critical''],
          suggestions = [''Resolve IP conflict for 10.0.0.5 in VLAN 10'']\<rparr>"
  by code_simp+

theorem ip_conflict_groups_witness:
  "named_interfaces conflict_topology \<and>
   1 < length (members (''10.0.0.5'', VlanId 10) (address_entries conflict_topology)) \<and>
   (\<exists>r. check_ip_conflicts conflict_topology = Inr r \<and> status r = ''fail'' \<and>
      issues r = [IpConflictIssue ''10.0.0.5'' (VlanId 10)
                    [(''PC1'', Some ''e0'', VlanId 10), (''PC2'', Some ''e0'', VlanId 10)]
                    ''critical''])"
  using ip_conflict_groups [OF conflict_topology_facts(1)]
  by (simp add: conflict_topology_facts)

section \<open>Graphs\<close>

lemma add_node_nodes: "set (fst (add_node g n)) = insert n (set (fst g))"
  by (auto simp: add_node_def)

lemma add_node_edges: "snd (add_node g n) = snd g"
  by (simp add: add_node_def)

lemma add_node_distinct: "distinct (fst g) \<Longrightarrow> distinct (fst (add_node g n))"
  by (simp add: add_node_def)

lemma add_edge_nodes: "set (fst (add_edge g u v)) = insert u (insert v (set (fst g)))"
  by (auto simp: add_edge_def Let_def add_node_nodes)

lemma add_edge_distinct: "distinct (fst g) \<Longrightarrow> distinct (fst (add_edge g u v))"
  by (simp add: add_edge_def Let_def add_node_distinct)

lemma add_edge_edges:
  "snd (add_edge g u v) =
     (if (u, v) \<in> set (snd g) \<or> (v, u) \<in> set (snd g) then snd g else snd g @ [(u, v)])"
  by (simp add: add_edge_def Let_def add_node_edges)

lemma directed_edges_set: "set (directed_edges g) = set (snd g) \<union> (set (snd g))\<inverse>"
  by (auto simp: directed_edges_def split: if_splits)

lemma add_edge_directed:
  "set (directed_edges (add_edge g u v)) = set (directed_edges g) \<union> {(u, v), (v, u)}"
  by (auto simp: directed_edges_set add_edge_edges)

lemma foldl_add_node_nodes: "set (fst (foldl add_node g ns)) = set (fst g) \<union> set ns"
  by (induction ns arbitrary: g) (auto simp: add_node_nodes)

lemma foldl_add_node_edges: "snd (foldl add_node g ns) = snd g"
  by (induction ns arbitrary: g) (simp_all add: add_node_edges)

lemma foldl_add_node_distinct: "distinct (fst g) \<Longrightarrow> distinct (fst (foldl add_node g ns))"
  by (induction ns arbitrary: g) (simp_all add: add_node_distinct)

lemma foldl_add_link_edge_nodes:
  "set (fst (foldl add_link_edge g ls)) =
     set (fst g) \<union>
     set (map (\<lambda>l. device_id (device1 (snd l))) ls) \<union> set (map (\<lambda>l. device_id (device2 (snd l))) ls)"
  by (induction ls arbitrary: g) (auto simp: add_link_edge_def add_edge_nodes)

lemma foldl_add_link_edge_distinct:
  "distinct (fst g) \<Longrightarrow> distinct (fst (foldl add_link_edge g ls))"
  by (induction ls arbitrary: g) (simp_all add: add_link_edge_def add_edge_distinct)

lemma foldl_add_link_edge_directed:
  "set (directed_edges (foldl add_link_edge g ls)) =
     set (directed_edges g) \<union>
     set (map (\<lambda>l. (device_id (device1 (snd l)), device_id (device2 (snd l)))) ls) \<union>
     (set (map (\<lambda>l. (device_id (device1 (snd l)), device_id (device2 (snd l)))) ls))\<inverse>"
proof (induction ls arbitrary: g)
  case Nil
  show ?case by simp
next
  case (Cons l ls)
  show ?case
    unfolding foldl_Cons Cons.IH
    by (auto simp: add_link_edge_def add_edge_directed)
qed

lemma connectivity_graph_nodes:
  "set (fst (connectivity_graph t)) =
     set (map fst (devices t)) \<union> set (map fst (link_pairs t)) \<union> set (map snd (link_pairs t))"
  by (simp add: connectivity_graph_def foldl_add_link_edge_nodes foldl_add_node_nodes
      link_pairs_def comp_def)

lemma connectivity_graph_distinct: "distinct (fst (connectivity_graph t))"
  by (simp add: connectivity_graph_def foldl_add_link_edge_distinct foldl_add_node_distinct)

lemma connectivity_graph_directed:
  "set (directed_edges (connectivity_graph t)) = link_relation t"
proof -
  have "set (directed_edges (connectivity_graph t)) =
      set (directed_edges (foldl add_node ([], []) (map fst (devices t)))) \<union>
      set (map (\<lambda>l. (device_id (device1 (snd l)), device_id (device2 (snd l)))) (links t)) \<union>
      (set (map (\<lambda>l. (device_id (device1 (snd l)), device_id (device2 (snd l)))) (links t)))\<inverse>"
    unfolding connectivity_graph_def by (rule foldl_add_link_edge_directed)
  moreover have "set (directed_edges (foldl add_node ([], []) (map fst (devices t)))) = {}"
    by (simp add: directed_edges_set foldl_add_node_edges)
  ultimately show ?thesis by (simp add: link_relation_def link_pairs_def)
qed

lemma has_path_rtrancl: "has_path g s t \<longleftrightarrow> (s, t) \<in> (set (directed_edges g))\<^sup>*"
  by (auto simp: has_path_def rtrancl_eq_or_trancl)

lemma filter_eq_distinct: "distinct xs \<Longrightarrow> e \<in> set xs \<Longrightarrow> filter (\<lambda>x. x = e) xs = [e]"
proof (induction xs)
  case Nil
  then show ?case by simp
next
  case (Cons x xs)
  show ?case
  proof (cases "x = e")
    case True
    with Cons.prems(1) have "\<forall>y \<in> set xs. y \<noteq> e" by auto
    then have "filter (\<lambda>x. x = e) xs = []" by (simp add: filter_empty_conv)
    with True show ?thesis by simp
  next
    case False
    with Cons show ?thesis by simp
  qed
qed

section \<open>The missing-components rule\<close>

lemma classify_device_ok:
  assumes "device_type (snd d) \<noteq> Absent"
  shows "classify_device (g, rs, eps) d =
     Inr (add_node g (fst d),
          rs @ map fst (filter (\<lambda>d. get (device_type (snd d)) = Some ''router'') [d]),
          eps @ map fst (filter (\<lambda>d. get (device_type (snd d)) = Some ''endpoint'') [d]))"
  using assms by (cases "device_type (snd d)") (auto simp: classify_device_def)

lemma classify_fold:
  assumes "\<forall>d \<in> set ds. device_type (snd d) \<noteq> Absent"
  shows "fold_exn classify_device ds (g, rs, eps) =
     Inr (foldl add_node g (map fst ds),
          rs @ map fst (filter (\<lambda>d. get (device_type (snd d)) = Some ''router'') ds),
          eps @ map fst (filter (\<lambda>d. get (device_type (snd d)) = Some ''endpoint'') ds))"
  using assms
proof (induction ds arbitrary: g rs eps)
  case Nil
  show ?case by simp
next
  case (Cons d ds)
  from Cons.prems have d: "device_type (snd d) \<noteq> Absent" and rest: "\<forall>d \<in> set ds. device_type (snd d) \<noteq> Absent"
    by simp_all
  show ?case
    unfolding fold_exn.simps classify_device_ok [OF d]
    by (simp add: Cons.IH [OF rest])
qed

lemma devices_of_type_distinct:
  "distinct (map fst (devices t)) \<Longrightarrow> distinct (devices_of_type ty t)"
  unfolding devices_of_type_def by (rule distinct_map_filter)

lemma router_not_endpoint:
  assumes "distinct (map fst (devices t))"
    and "e \<in> set (devices_of_type ''endpoint'' t)" and "r \<in> set (devices_of_type ''router'' t)"
  shows "e \<noteq> r"
proof
  assume eq: "e = r"
  from assms(2) obtain c1 where c1: "(e, c1) \<in> set (devices t)" "get (device_type c1) = Some ''endpoint''"
    by (auto simp: devices_of_type_def)
  from assms(3) obtain c2 where c2: "(r, c2) \<in> set (devices t)" "get (device_type c2) = Some ''router''"
    by (auto simp: devices_of_type_def)
  from eq_key_imp_eq_value [OF assms(1) c1(1)] c2(1) eq have "c1 = c2" by simp
  with c1(2) c2(2) show False by simp
qed

lemma unlinked_endpoint_isolated:
  assumes "distinct (map fst (devices t))" and "e \<in> set (devices_of_type ''endpoint'' t)"
    and "\<forall>p \<in> set (link_pairs t). fst p \<noteq> e \<and> snd p \<noteq> e"
  shows "isolated t e"
proof -
  have "(e, r) \<notin> (link_relation t)\<^sup>*" if r: "r \<in> set (devices_of_type ''router'' t)" for r
  proof
    assume path: "(e, r) \<in> (link_relation t)\<^sup>*"
    from router_not_endpoint [OF assms(1,2) r] have "e \<noteq> r" .
    with path obtain x where "(e, x) \<in> link_relation t" by (auto elim: converse_rtranclE)
    with assms(3) show False by (force simp: link_relation_def)
  qed
  with assms(2) show ?thesis by (simp add: isolated_def)
qed

text \<open>
  C7. On a table whose devices all carry a type, under distinct names, the rule returns a
  result; an endpoint gets an issue exactly when no sequence of links joins it to a
  router, the issue is critical and there is one for each such endpoint; an endpoint
  that no link touches is among them; and the status is fail whenever there is one.
\<close>

theorem endpoints_without_router:
  assumes "typed_devices t" and "distinct (map fst (devices t))"
  shows
  "\<exists>r. check_missing_components t = Inr r \<and>
     (\<forall>e. isolated t e \<longrightarrow>
        filter (\<lambda>i. endpoint_of_issue i = Some e) (issues r) = [endpoint_issue e] \<and>
        severity (endpoint_issue e) = ''critical'') \<and>
     (\<forall>i \<in> set (issues r). \<forall>e. endpoint_of_issue i = Some e \<longrightarrow> isolated t e) \<and>
     ((\<exists>e. isolated t e) \<longrightarrow> status r = ''fail'') \<and>
     (\<forall>e \<in> set (devices_of_type ''endpoint'' t).
        (\<forall>p \<in> set (link_pairs t). fst p \<noteq> e \<and> snd p \<noteq> e) \<longrightarrow> isolated t e)"
proof -
  define routers where "routers = devices_of_type ''router'' t"
  define endpoints where "endpoints = devices_of_type ''endpoint'' t"
  define graph where "graph = connectivity_graph t"
  define lonely where
    "lonely = filter (\<lambda>e. \<not> (\<exists>r \<in> set routers. has_path graph e r)) endpoints"
  define rest where
    "rest = (if length routers = 0 then map dhcp_issue (link_subnets (links t)) else [])"
  define r where "r = \<lparr>status = status_of (map endpoint_issue lonely @ rest),
      issues = map endpoint_issue lonely @ rest,
      suggestions = [''Ensure all endpoints have connectivity to network infrastructure'']\<rparr>"
  have cl: "fold_exn classify_device (devices t) (([], []), [], []) =
      Inr (foldl add_node ([], []) (map fst (devices t)), routers, endpoints)"
    using assms(1)
    by (simp add: classify_fold typed_devices_def routers_def endpoints_def devices_of_type_def)
  have ret: "check_missing_components t = Inr r"
    by (simp add: check_missing_components_def cl Let_def r_def lonely_def rest_def graph_def
        connectivity_graph_def)
  have lonely_iff: "e \<in> set lonely \<longleftrightarrow> isolated t e" for e
    by (auto simp: lonely_def isolated_def endpoints_def routers_def graph_def has_path_rtrancl
        connectivity_graph_directed)
  have dl: "distinct lonely"
    unfolding lonely_def endpoints_def
    by (intro distinct_filter devices_of_type_distinct assms(2))
  have rest_none: "filter (\<lambda>i. endpoint_of_issue i = Some e) rest = []" for e
    by (auto simp: rest_def dhcp_issue_def filter_empty_conv)
  have one: "filter (\<lambda>i. endpoint_of_issue i = Some e) (issues r) = [endpoint_issue e]"
    if "isolated t e" for e
  proof -
    from that have "e \<in> set lonely" by (simp add: lonely_iff)
    from filter_eq_distinct [OF dl this]
    have "filter (\<lambda>i. endpoint_of_issue i = Some e) (map endpoint_issue lonely) = [endpoint_issue e]"
      by (simp add: filter_map comp_def endpoint_issue_def)
    then show ?thesis by (simp add: r_def rest_none)
  qed
  have only: "isolated t e" if "i \<in> set (issues r)" and "endpoint_of_issue i = Some e" for i e
  proof -
    from that(1) have "i \<in> set (map endpoint_issue lonely) \<or> i \<in> set rest" by (auto simp: r_def)
    moreover have "i \<notin> set rest"
      using that(2) by (auto simp: rest_def dhcp_issue_def)
    ultimately obtain x where "x \<in> set lonely" and "i = endpoint_issue x" by auto
    with that(2) show ?thesis by (simp add: endpoint_issue_def lonely_iff)
  qed
  have fails: "status r = ''fail''" if "\<exists>e. isolated t e"
  proof -
    from that obtain e where "e \<in> set lonely" by (auto simp: lonely_iff)
    then have "endpoint_issue e \<in> set (map endpoint_issue lonely @ rest)" by simp
    moreover have "severity (endpoint_issue e) = ''critical''" by (simp add: endpoint_issue_def)
    ultimately have "\<exists>i \<in> set (map endpoint_issue lonely @ rest). severity i = ''critical''"
      by blast
    then show ?thesis by (simp only: r_def status_of_def rule_result.simps if_True)
  qed
  have sev: "severity (endpoint_issue e) = ''critical''" for e
    by (simp add: endpoint_issue_def)
  have zero: "\<forall>e \<in> set (devices_of_type ''endpoint'' t).
        (\<forall>p \<in> set (link_pairs t). fst p \<noteq> e \<and> snd p \<noteq> e) \<longrightarrow> isolated t e"
    using unlinked_endpoint_isolated [OF assms(2)] by blast
  from ret one only fails sev zero show ?thesis by blast
qed

lemma stray_topology_facts:
  "typed_devices stray_topology"
  "distinct (map fst (devices stray_topology))"
  "''PC2'' \<in> set (devices_of_type ''endpoint'' stray_topology)"
  "\<forall>p \<in> set (link_pairs stray_topology). fst p \<noteq> ''PC2'' \<and> snd p \<noteq> ''PC2''"
  "check_missing_components stray_topology =
     Inr \<lparr>status = ''fail'',
          issues = [EndpointIssue ''PC2'' ''Endpoint PC2 has no path to any router'' ''critical''
                      ''Add switch/router configuration for PC2 connectivity''],
          suggestions = [''Ensure all endpoints have connectivity to network infrastructure'']\<rparr>"
  by code_simp+

theorem endpoints_without_router_witness:
  "typed_devices stray_topology \<and> distinct (map fst (devices stray_topology)) \<and>
   isolated stray_topology ''PC2'' \<and>
   (\<exists>r. check_missing_components stray_topology = Inr r \<and> status r = ''fail'' \<and>
      filter (\<lambda>i. endpoint_of_issue i = Some ''PC2'') (issues r) =
        [EndpointIssue ''PC2'' ''Endpoint PC2 has no path to any router'' ''critical''
           ''Add switch/router configuration for PC2 connectivity''])"
proof -
  note T = endpoints_without_router [OF stray_topology_facts(1,2)]
  then obtain r where r: "check_missing_components stray_topology = Inr r"
    and zero: "\<forall>e \<in> set (devices_of_type ''endpoint'' stray_topology).
        (\<forall>p \<in> set (link_pairs stray_topology). fst p \<noteq> e \<and> snd p \<noteq> e) \<longrightarrow> isolated stray_topology e"
    and one: "\<forall>e. isolated stray_topology e \<longrightarrow>
        filter (\<lambda>i. endpoint_of_issue i = Some e) (issues r) = [endpoint_issue e] \<and>
        severity (endpoint_issue e) = ''critical''"
    and fails: "(\<exists>e. isolated stray_topology e) \<longrightarrow> status r = ''fail''"
    by blast
  from zero stray_topology_facts(3,4) have iso: "isolated stray_topology ''PC2''" by blast
  with one have "filter (\<lambda>i. endpoint_of_issue i = Some ''PC2'') (issues r) = [endpoint_issue ''PC2'']"
    by blast
  moreover from iso fails have "status r = ''fail''" by blast
  ultimately show ?thesis
    using r iso stray_topology_facts(1,2) by (auto simp: endpoint_issue_def)
qed

section \<open>The redundancy rule\<close>

lemma spof_device_issue_ok:
  assumes "map_of (devices t) v = Some cfg" and "device_type cfg \<noteq> Absent"
  shows "spof_device_issue t v = Inr (spof_device t v)"
  using assms
  by (cases "device_type cfg")
     (simp_all add: spof_device_issue_def spof_device_def device_type_of_def)

lemma known_device:
  assumes "typed_devices t" and "v \<in> set (map fst (devices t))"
  shows "\<exists>cfg. map_of (devices t) v = Some cfg \<and> device_type cfg \<noteq> Absent"
proof -
  from assms(2) obtain cfg where m: "map_of (devices t) v = Some cfg"
    by (cases "map_of (devices t) v") (auto simp: map_of_eq_None_iff)
  then have "(v, cfg) \<in> set (devices t)" by (rule map_of_SomeD)
  with assms(1) have "device_type cfg \<noteq> Absent" by (auto simp: typed_devices_def)
  with m show ?thesis by blast
qed

lemma articulation_points_nodes:
  "set (articulation_points g) \<subseteq> set (fst g)"
  by (auto simp: articulation_points_def)

text \<open>
  C6. On a topology whose links join devices of the table, all of them with a type, the
  rule returns a result whose issues are one issue for every articulation point of the
  connectivity graph, critical for a router and a warning otherwise, followed by one
  warning for every bridge. On the chain A, B, C the articulation point is B and the
  bridges are its two links.
\<close>

theorem redundancy_issues:
  assumes "typed_devices t" and "closed_links t"
  shows
  "\<exists>r. check_redundancy t = Inr r \<and>
     issues r =
       map (spof_device t) (articulation_points (connectivity_graph t)) @
       map spof_link_issue (bridges (connectivity_graph t)) \<and>
     distinct (articulation_points (connectivity_graph t)) \<and>
     (\<forall>v \<in> set (articulation_points (connectivity_graph t)).
        severity (spof_device t v) =
          (if device_type_of t v = Some ''router'' then ''critical'' else ''warning'')) \<and>
     (\<forall>b \<in> set (bridges (connectivity_graph t)). severity (spof_link_issue b) = ''warning'') \<and>
     articulation_points (connectivity_graph chain_topology) = [''B''] \<and>
     bridges (connectivity_graph chain_topology) = [(''A'', ''B''), (''B'', ''C'')]"
proof -
  define g where "g = connectivity_graph t"
  have "set (map fst (link_pairs t)) \<subseteq> set (map fst (devices t))"
    and "set (map snd (link_pairs t)) \<subseteq> set (map fst (devices t))"
    using assms(2) unfolding closed_links_def by auto
  then have nodes: "set (fst g) = set (map fst (devices t))"
    unfolding g_def connectivity_graph_nodes by blast
  have "spof_device_issue t v = Inr (spof_device t v)" if "v \<in> set (articulation_points g)" for v
  proof -
    from that articulation_points_nodes have "v \<in> set (fst g)" by blast
    then have "v \<in> set (map fst (devices t))" by (simp only: nodes)
    from known_device [OF assms(1) this] show ?thesis by (auto intro: spof_device_issue_ok)
  qed
  then have m: "map_exn (spof_device_issue t) (articulation_points g) =
      Inr (map (spof_device t) (articulation_points g))"
    by (rule map_exn_total)
  define r where "r = \<lparr>status = status_of (map (spof_device t) (articulation_points g) @
          map spof_link_issue (bridges g)),
      issues = map (spof_device t) (articulation_points g) @ map spof_link_issue (bridges g),
      suggestions = [''Implement redundant paths and eliminate single points of failure'']\<rparr>"
  have ret: "check_redundancy t = Inr r"
    using m by (simp add: check_redundancy_def Let_def r_def g_def)
  have d: "distinct (articulation_points g)"
    unfolding articulation_points_def g_def
    by (intro distinct_filter connectivity_graph_distinct)
  have chain: "articulation_points (connectivity_graph chain_topology) = [''B'']"
    "bridges (connectivity_graph chain_topology) = [(''A'', ''B''), (''B'', ''C'')]"
    by code_simp+
  have "issues r =
       map (spof_device t) (articulation_points g) @ map spof_link_issue (bridges g)"
    by (simp add: r_def)
  moreover have "\<forall>v \<in> set (articulation_points g).
        severity (spof_device t v) =
          (if device_type_of t v = Some ''router'' then ''critical'' else ''warning'')"
    by (simp add: spof_device_def)
  moreover have "\<forall>b \<in> set (bridges g). severity (spof_link_issue b) = ''warning''"
    by (simp add: spof_link_issue_def)
  ultimately show ?thesis using ret d chain unfolding g_def by blast
qed

lemma chain_topology_facts:
  "typed_devices chain_topology"
  "closed_links chain_topology"
  "spof_device chain_topology ''B'' =
     SpofDeviceIssue ''B'' (Some ''switch'') ''switch B is a single point of failure''
       ''Add redundant paths around B'' ''warning''"
  by code_simp+

theorem redundancy_issues_witness:
  "typed_devices chain_topology \<and> closed_links chain_topology \<and>
   (\<exists>r. check_redundancy chain_topology = Inr r \<and>
      issues r =
        [SpofDeviceIssue ''B'' (Some ''switch'') ''switch B is a single point of failure''
           ''Add redundant paths around B'' ''warning'',
         spof_link_issue (''A'', ''B''), spof_link_issue (''B'', ''C'')])"
proof -
  from redundancy_issues [OF chain_topology_facts(1,2)]
  obtain r where "check_redundancy chain_topology = Inr r"
    and "issues r =
       map (spof_device chain_topology) (articulation_points (connectivity_graph chain_topology)) @
       map spof_link_issue (bridges (connectivity_graph chain_topology))"
    and "articulation_points (connectivity_graph chain_topology) = [''B'']"
    and "bridges (connectivity_graph chain_topology) = [(''A'', ''B''), (''B'', ''C'')]"
    by blast
  then show ?thesis
    using chain_topology_facts by auto
qed

end
